theory Spec2Isabelle
  imports Main
begin

section \<open>The storage indexer of main.py\<close>

subsection \<open>The file system seen by the scanner\<close>

text \<open>
  What \<^verbatim>\<open>os.scandir\<close>, \<^verbatim>\<open>entry.is_dir()\<close>, \<^verbatim>\<open>entry.is_file()\<close>, \<^verbatim>\<open>entry.stat()\<close> and
  \<^verbatim>\<open>os.path.getsize\<close> answer. A directory carries its listing in the order
  \<^verbatim>\<open>os.scandir\<close> yields it, or \<open>None\<close> when \<^verbatim>\<open>os.scandir\<close> raises on it. A regular file
  carries its size in bytes and its creation date as
  \<^verbatim>\<open>time.strftime('%d.%m.%Y', time.localtime(st_ctime))\<close> prints it, or \<open>None\<close> when
  reading its metadata raises. \<open>Other\<close> is an entry that is neither (a dangling link, a
  socket): the loop has no branch for it. Names are byte strings (UTF-8).
  \<^verbatim>\<open>os.path.isdir\<close> never raises: it answers \<^verbatim>\<open>False\<close> when the \<^verbatim>\<open>stat\<close> of the entry
  fails, so an entry whose metadata it cannot read is an \<open>Other\<close> in what
  \<^verbatim>\<open>update_categories\<close> is given.
\<close>

datatype fsentry =
    Dir string "fsentry list option"
  | File string "(nat \<times> string) option"
  | Other string

datatype error = OSError

subsection \<open>Nodes of the published tree\<close>

text \<open>
  The two dict literals of \<^verbatim>\<open>scan_directory\<close>. A directory item has the keys
  \<^verbatim>\<open>id, name, type, idCategory, children\<close>; a file item has the keys
  \<^verbatim>\<open>id, name, type, fileDate, fileType, fileSize, filepath, categoryId\<close>.
  Python's \<^verbatim>\<open>None\<close> in a category field is \<open>None\<close>.
\<close>

datatype node =
    DirItem int string string "int option" "node list"
  | FileItem int string string string string string string "int option"

fun item_keys :: "node \<Rightarrow> string list" where
  "item_keys (DirItem i n t c kids) = [''id'', ''name'', ''type'', ''idCategory'', ''children'']"
| "item_keys (FileItem i n t d ft fs url c) =
     [''id'', ''name'', ''type'', ''fileDate'', ''fileType'', ''fileSize'', ''filepath'',
      ''categoryId'']"

fun item_id :: "node \<Rightarrow> int" where
  "item_id (DirItem i n t c kids) = i"
| "item_id (FileItem i n t d ft fs url c) = i"

fun item_name :: "node \<Rightarrow> string" where
  "item_name (DirItem i n t c kids) = n"
| "item_name (FileItem i n t d ft fs url c) = n"

fun item_type :: "node \<Rightarrow> string" where
  "item_type (DirItem i n t c kids) = t"
| "item_type (FileItem i n t d ft fs url c) = t"

fun children :: "node \<Rightarrow> node list" where
  "children (DirItem i n t c kids) = kids"
| "children (FileItem i n t d ft fs url c) = []"

text \<open>The value stored under the key \<^verbatim>\<open>idCategory\<close>; \<open>None\<close> when the key is missing.\<close>

fun idCategory :: "node \<Rightarrow> int option option" where
  "idCategory (DirItem i n t c kids) = Some c"
| "idCategory (FileItem i n t d ft fs url c) = None"

text \<open>The value stored under the key \<^verbatim>\<open>categoryId\<close>; \<open>None\<close> when the key is missing.\<close>

fun categoryId :: "node \<Rightarrow> int option option" where
  "categoryId (DirItem i n t c kids) = None"
| "categoryId (FileItem i n t d ft fs url c) = Some c"

fun filepath :: "node \<Rightarrow> string option" where
  "filepath (DirItem i n t c kids) = None"
| "filepath (FileItem i n t d ft fs url c) = Some url"

fun fileSize :: "node \<Rightarrow> string option" where
  "fileSize (DirItem i n t c kids) = None"
| "fileSize (FileItem i n t d ft fs url c) = Some fs"

subsection \<open>Strings: decimal digits, \<^verbatim>\<open>os.path.join\<close>, \<^verbatim>\<open>os.path.splitext\<close>, \<^verbatim>\<open>quote\<close>\<close>

definition digit_char :: "nat \<Rightarrow> char" where
  "digit_char d = char_of (48 + d)"

function str_nat :: "nat \<Rightarrow> string" where
  "str_nat n = (if n < 10 then [digit_char n] else str_nat (n div 10) @ [digit_char (n mod 10)])"
  by pat_completeness auto
termination
  by (relation "measure id") auto

text \<open>\<^verbatim>\<open>posixpath.join(a, b)\<close>.\<close>

definition path_join :: "string \<Rightarrow> string \<Rightarrow> string" where
  "path_join a b =
     (if b \<noteq> [] \<and> hd b = CHR ''/'' then b
      else if a = [] \<or> last a = CHR ''/'' then a @ b
      else a @ ''/'' @ b)"

text \<open>\<^verbatim>\<open>str.rfind\<close> of one character: the last index, or \<open>-1\<close>.\<close>

fun rfind :: "string \<Rightarrow> char \<Rightarrow> int" where
  "rfind [] c = -1"
| "rfind (x # xs) c =
     (let r = rfind xs c in if r \<ge> 0 then r + 1 else if x = c then 0 else -1)"

text \<open>\<^verbatim>\<open>posixpath.splitext\<close>: the extension starts at the last dot after the last slash,
  unless only dots stand before it.\<close>

definition splitext :: "string \<Rightarrow> string \<times> string" where
  "splitext p =
     (let sepIndex = rfind p CHR ''/''; dotIndex = rfind p CHR ''.'' in
      if dotIndex > sepIndex \<and>
         list_ex (\<lambda>i. p ! i \<noteq> CHR ''.'') [nat (sepIndex + 1)..<nat dotIndex]
      then (take (nat dotIndex) p, drop (nat dotIndex) p)
      else (p, []))"

definition hex_char :: "nat \<Rightarrow> char" where
  "hex_char d = (if d < 10 then char_of (48 + d) else char_of (55 + d))"

text \<open>The bytes \<^verbatim>\<open>urllib.parse.quote\<close> leaves alone: letters, digits, \<^verbatim>\<open>_.-~\<close> and the
  default \<^verbatim>\<open>safe='/'\<close>.\<close>

definition quote_safe :: "char \<Rightarrow> bool" where
  "quote_safe c =
     (let k = (of_char c :: nat) in
      (65 \<le> k \<and> k \<le> 90) \<or> (97 \<le> k \<and> k \<le> 122) \<or> (48 \<le> k \<and> k \<le> 57) \<or>
      c = CHR ''_'' \<or> c = CHR ''.'' \<or> c = CHR ''-'' \<or> c = CHR ''~'' \<or> c = CHR ''/'')"

definition quote_byte :: "char \<Rightarrow> string" where
  "quote_byte c =
     (if quote_safe c then [c]
      else [CHR ''%'', hex_char ((of_char c :: nat) div 16), hex_char ((of_char c :: nat) mod 16)])"

definition quote :: "string \<Rightarrow> string" where
  "quote s = concat (map quote_byte s)"

subsection \<open>The size string\<close>

text \<open>
  \<^verbatim>\<open>size / 1024\<close> and \<^verbatim>\<open>size / (1024 * 1024)\<close> are true divisions of integers: the double
  nearest to the quotient, ties to even. The divisor is a power of two, so the double is
  the size rounded to 53 significant bits, over the divisor: a double is kept as that
  numerator, the divisor beside it. \<^verbatim>\<open>f"{size:.2f}"\<close> prints the double's exact value
  rounded to hundredths, ties to even.
\<close>

definition round_half_even :: "nat \<Rightarrow> nat \<Rightarrow> nat" where
  "round_half_even a b =
     (let q = a div b; r = a mod b in
      if 2 * r > b \<or> (2 * r = b \<and> odd q) then q + 1 else q)"

function float_shift :: "nat \<Rightarrow> nat" where
  "float_shift n = (if n < 2 ^ 53 then 0 else Suc (float_shift (n div 2)))"
  by pat_completeness auto
termination
  by (relation "measure id") auto

definition nearest_double :: "nat \<Rightarrow> nat" where
  "nearest_double n = (let sh = float_shift n in round_half_even n (2 ^ sh) * 2 ^ sh)"

definition format_2f :: "nat \<Rightarrow> nat \<Rightarrow> string" where
  "format_2f num den =
     (let h = round_half_even (100 * num) den in
      str_nat (h div 100) @ ''.'' @ [digit_char (h mod 100 div 10), digit_char (h mod 10)])"

definition format_file_size :: "nat \<Rightarrow> string" where
  "format_file_size nbytes =
     (let size_label = (if nbytes < 1024 * 1024 then ''KB'' else ''MB'');
          den = (if size_label = ''KB'' then 1024 else 1024 * 1024)
      in format_2f (nearest_double nbytes) den @ '' '' @ size_label)"

subsection \<open>The module's globals\<close>

text \<open>A category entry is the dict literal of \<^verbatim>\<open>update_categories\<close>, with the keys
  \<^verbatim>\<open>idCategory\<close> and \<^verbatim>\<open>textCategory\<close>.\<close>

datatype category_entry = CategoryEntry int string

fun entry_keys :: "category_entry \<Rightarrow> string list" where
  "entry_keys (CategoryEntry i n) = [''idCategory'', ''textCategory'']"

fun entry_idCategory :: "category_entry \<Rightarrow> int" where
  "entry_idCategory (CategoryEntry i n) = i"

fun entry_textCategory :: "category_entry \<Rightarrow> string" where
  "entry_textCategory (CategoryEntry i n) = n"

record globals =
  categories :: "category_entry list"
  storage_data :: "node list"
  id_counter :: int
  category_id_counter :: int

definition BASE_URL :: string where
  "BASE_URL = ''http://127.0.0.1:5000''"

subsection \<open>\<^verbatim>\<open>scan_directory\<close>\<close>

text \<open>
  \<open>scan_directory\<close> takes what \<^verbatim>\<open>os.scandir(path)\<close> gives for its \<^verbatim>\<open>path\<close>; \<open>scan_loop\<close> is
  its \<^verbatim>\<open>for\<close> loop. The counters are the globals, so they keep what they reached when an
  exception leaves the function. On POSIX \<^verbatim>\<open>os.sep\<close> is the slash and
  \<^verbatim>\<open>replace(os.sep, '/')\<close> changes nothing.
\<close>

fun scan_directory ::
    "fsentry list option \<Rightarrow> bool \<Rightarrow> int option \<Rightarrow> string \<Rightarrow> globals \<Rightarrow> (error + node list) \<times> globals"
  and scan_loop ::
    "fsentry list \<Rightarrow> bool \<Rightarrow> int option \<Rightarrow> string \<Rightarrow> globals \<Rightarrow> (error + node list) \<times> globals"
where
  "scan_directory None is_root parent_category_id relative_path g = (Inl OSError, g)"
| "scan_directory (Some entries) is_root parent_category_id relative_path g =
     scan_loop entries is_root parent_category_id relative_path g"
| "scan_loop [] is_root parent_category_id relative_path g = (Inr [], g)"
| "scan_loop (Dir name listing # entries) is_root parent_category_id relative_path g =
     (let entry_relative_path = path_join relative_path name;
          category_id = (if is_root then Some (category_id_counter g) else parent_category_id);
          ident = id_counter g;
          g1 = g\<lparr>id_counter := id_counter g + 1\<rparr>;
          g2 = (if is_root then g1\<lparr>category_id_counter := category_id_counter g1 + 1\<rparr> else g1)
      in case scan_directory listing False category_id entry_relative_path g2 of
           (Inl e, g3) \<Rightarrow> (Inl e, g3)
         | (Inr kids, g3) \<Rightarrow>
             (case scan_loop entries is_root parent_category_id relative_path g3 of
                (Inl e, g4) \<Rightarrow> (Inl e, g4)
              | (Inr result, g4) \<Rightarrow>
                  (Inr (DirItem ident name (if is_root then ''Category'' else ''folder'')
                          category_id kids # result), g4)))"
| "scan_loop (File name None # entries) is_root parent_category_id relative_path g =
     (Inl OSError, g)"
| "scan_loop (File name (Some (nbytes, creation_date)) # entries) is_root parent_category_id
       relative_path g =
     (let entry_relative_path = path_join relative_path name;
          (file_name, file_extension) = splitext name;
          file_format = (if file_extension \<noteq> [] then tl file_extension else ''unknown'');
          file_url = BASE_URL @ ''/files/storage/'' @ quote entry_relative_path;
          item = FileItem (id_counter g) file_name ''file'' creation_date file_format
                   (format_file_size nbytes) file_url parent_category_id;
          g1 = g\<lparr>id_counter := id_counter g + 1\<rparr>
      in case scan_loop entries is_root parent_category_id relative_path g1 of
           (Inl e, g2) \<Rightarrow> (Inl e, g2)
         | (Inr result, g2) \<Rightarrow> (Inr (item # result), g2))"
| "scan_loop (Other name # entries) is_root parent_category_id relative_path g =
     scan_loop entries is_root parent_category_id relative_path g"

subsection \<open>\<^verbatim>\<open>find_category\<close>\<close>

text \<open>
  The loop over a list of items: the handler passes the published list and the function
  passes itself the list under \<^verbatim>\<open>children\<close>, so the branch that wraps a single dict is
  never taken. An item that is found has the key \<^verbatim>\<open>idCategory\<close>, so it is a non-empty
  dict and \<^verbatim>\<open>if found:\<close> holds for it. A file item has neither the key
  \<^verbatim>\<open>idCategory\<close> nor the key \<^verbatim>\<open>children\<close>.
\<close>

fun find_category :: "node list \<Rightarrow> int \<Rightarrow> node option" where
  "find_category [] category_id = None"
| "find_category (DirItem i n t c kids # data) category_id =
     (if c = Some category_id then Some (DirItem i n t c kids)
      else case find_category kids category_id of
             Some found \<Rightarrow> Some found
           | None \<Rightarrow> find_category data category_id)"
| "find_category (FileItem i n t d ft fs url c # data) category_id =
     find_category data category_id"

subsection \<open>The refresh operations\<close>

text \<open>Both take what the storage directory answers at the time of the call: its listing,
  or \<open>None\<close> when listing it raises. \<open>is_dir\<close> is what \<^verbatim>\<open>os.path.isdir\<close> answers: true
  of the directories whose \<^verbatim>\<open>stat\<close> succeeds.\<close>

fun is_dir :: "fsentry \<Rightarrow> bool" where
  "is_dir (Dir name listing) = True"
| "is_dir (File name st) = False"
| "is_dir (Other name) = False"

fun entry_name :: "fsentry \<Rightarrow> string" where
  "entry_name (Dir name listing) = name"
| "entry_name (File name st) = name"
| "entry_name (Other name) = name"

definition update_categories :: "fsentry list option \<Rightarrow> globals \<Rightarrow> globals" where
  "update_categories root g =
     (case root of
        None \<Rightarrow> g
      | Some listing \<Rightarrow>
          (let folder_names = map entry_name (filter is_dir listing) in
           g\<lparr>categories :=
               map (\<lambda>(idx, name). CategoryEntry (int idx + 1) name) (enumerate 0 folder_names)\<rparr>))"

definition update_storage_data :: "fsentry list option \<Rightarrow> globals \<Rightarrow> globals" where
  "update_storage_data root g =
     (let g0 = g\<lparr>id_counter := 1, category_id_counter := 1\<rparr> in
      case scan_directory root True None [] g0 of
        (Inr tree, g1) \<Rightarrow> g1\<lparr>storage_data := tree\<rparr>
      | (Inl e, g1) \<Rightarrow> g1)"

text \<open>The module starts with empty lists and both counters at \<open>1\<close>.\<close>

definition initial_globals :: globals where
  "initial_globals = \<lparr>categories = [], storage_data = [], id_counter = 1, category_id_counter = 1\<rparr>"

subsection \<open>The read handlers\<close>

datatype response =
    JsonCategories "category_entry list"
  | JsonTree "node list"
  | JsonItem node
  | JsonObject "(string \<times> string) list"

definition get_categories :: "globals \<Rightarrow> response" where
  "get_categories g = JsonCategories (categories g)"

text \<open>The query argument is \<open>None\<close> when \<^verbatim>\<open>idCategory\<close> is missing or is not an integer.\<close>

definition get_storage :: "int option \<Rightarrow> globals \<Rightarrow> response" where
  "get_storage category_id g =
     (case category_id of
        None \<Rightarrow> JsonTree (storage_data g)
      | Some cid \<Rightarrow>
          (case find_category (storage_data g) cid of
             None \<Rightarrow> JsonObject [(''error'', ''Category not found'')]
           | Some item \<Rightarrow> JsonItem item))"

subsection \<open>Traversal order\<close>

text \<open>Parent before children, siblings in list order.\<close>

fun preorder :: "node list \<Rightarrow> node list" where
  "preorder [] = []"
| "preorder (DirItem i n t c kids # data) = DirItem i n t c kids # preorder kids @ preorder data"
| "preorder (FileItem i n t d ft fs url c # data) = FileItem i n t d ft fs url c # preorder data"

subsection \<open>Names for the directory branch of the loop\<close>

text \<open>The category id a directory item gets, and the counters after the item is built.\<close>

definition dir_category :: "bool \<Rightarrow> int option \<Rightarrow> globals \<Rightarrow> int option" where
  "dir_category is_root pc g = (if is_root then Some (category_id_counter g) else pc)"

definition dir_globals :: "bool \<Rightarrow> globals \<Rightarrow> globals" where
  "dir_globals is_root g =
     (if is_root then g\<lparr>id_counter := id_counter g + 1, category_id_counter := category_id_counter g + 1\<rparr>
      else g\<lparr>id_counter := id_counter g + 1\<rparr>)"

subsection \<open>Discovery order on the file system\<close>

text \<open>The names of the directories and regular files in the order a depth-first walk
  meets them: a directory before its entries, the entries in listing order. A file is
  shown under its name without the extension, as its item is; other entries are skipped.\<close>

fun discovered :: "fsentry list \<Rightarrow> string list" where
  "discovered [] = []"
| "discovered (Dir name listing # entries) =
     name # (case listing of None \<Rightarrow> [] | Some kids \<Rightarrow> discovered kids) @ discovered entries"
| "discovered (File name st # entries) = fst (splitext name) # discovered entries"
| "discovered (Other name # entries) = discovered entries"

subsection \<open>Categories in a tree\<close>

text \<open>The category id an item carries: under the key \<^verbatim>\<open>idCategory\<close> in a directory item,
  under the key \<^verbatim>\<open>categoryId\<close> in a file item.\<close>

fun category_of :: "node \<Rightarrow> int option" where
  "category_of (DirItem i n t c kids) = c"
| "category_of (FileItem i n t d ft fs url c) = c"

text \<open>Every item of a subtree carries the category id \<open>c\<close>, and none of them is a
  Category.\<close>

definition below_category :: "int option \<Rightarrow> node list \<Rightarrow> bool" where
  "below_category c kids =
     list_all (\<lambda>d. category_of d = c \<and> item_type d \<noteq> ''Category'') (preorder kids)"

text \<open>The top level of a tree: its directories are Categories numbered \<open>k\<close>, \<open>k + 1\<close>, ...
  in list order, each with its subtree below its own number; its files carry \<open>pc\<close>.\<close>

fun numbered_from :: "int option \<Rightarrow> int \<Rightarrow> node list \<Rightarrow> bool" where
  "numbered_from pc k [] = True"
| "numbered_from pc k (DirItem i n t c kids # data) =
     (t = ''Category'' \<and> c = Some k \<and> below_category c kids \<and> numbered_from pc (k + 1) data)"
| "numbered_from pc k (FileItem i n t d ft fs url c # data) = (c = pc \<and> numbered_from pc k data)"

text \<open>The category id and the name of each top-level directory item, in list order.\<close>

fun top_categories :: "node list \<Rightarrow> (int option \<times> string) list" where
  "top_categories [] = []"
| "top_categories (DirItem i n t c kids # data) = (c, n) # top_categories data"
| "top_categories (FileItem i n t d ft fs url c # data) = top_categories data"

text \<open>What the scan gives every tree: each top-level directory item is a Category with a
  category id of its own, everything below it carries that id, and a file at the top
  level carries none.\<close>

definition inherits_category :: "node list \<Rightarrow> bool" where
  "inherits_category tree =
     list_all
       (\<lambda>item. case item of
          DirItem i n t c kids \<Rightarrow> t = ''Category'' \<and> c \<noteq> None \<and> below_category c kids
        | FileItem i n t d ft fs url c \<Rightarrow> c = None)
       tree"

text \<open>The same with the Category's \<^verbatim>\<open>id\<close> in the place of its category id.\<close>

definition inherits_node_id :: "node list \<Rightarrow> bool" where
  "inherits_node_id tree =
     list_all
       (\<lambda>item. case item of
          DirItem i n t c kids \<Rightarrow> list_all (\<lambda>d. category_of d = Some i) (preorder kids)
        | FileItem i n t d ft fs url c \<Rightarrow> c = None)
       tree"

subsection \<open>Relative paths of the files\<close>

text \<open>The values under the key \<^verbatim>\<open>filepath\<close>, in traversal order.\<close>

definition file_urls :: "node list \<Rightarrow> string list" where
  "file_urls tree = List.map_filter filepath (preorder tree)"

text \<open>A name as a POSIX directory gives it: not empty, no slash in it.\<close>

definition valid_name :: "string \<Rightarrow> bool" where
  "valid_name name = (name \<noteq> [] \<and> CHR ''/'' \<notin> set name)"

fun valid_names :: "fsentry list \<Rightarrow> bool" where
  "valid_names [] = True"
| "valid_names (Dir name listing # entries) =
     (valid_name name \<and> (case listing of None \<Rightarrow> True | Some kids \<Rightarrow> valid_names kids) \<and>
      valid_names entries)"
| "valid_names (File name st # entries) = (valid_name name \<and> valid_names entries)"
| "valid_names (Other name # entries) = valid_names entries"

text \<open>Path components joined by forward slashes.\<close>

fun slash_join :: "string list \<Rightarrow> string" where
  "slash_join [] = []"
| "slash_join [x] = x"
| "slash_join (x # y # ys) = x @ ''/'' @ slash_join (y # ys)"

text \<open>The regular files of a directory tree in discovery order, each as the list of names
  that leads to it from the scan root (\<open>ps\<close> leads to the directory listed).\<close>

fun file_paths :: "string list \<Rightarrow> fsentry list \<Rightarrow> string list list" where
  "file_paths ps [] = []"
| "file_paths ps (Dir name listing # entries) =
     (case listing of None \<Rightarrow> [] | Some kids \<Rightarrow> file_paths (ps @ [name]) kids) @
     file_paths ps entries"
| "file_paths ps (File name st # entries) = (ps @ [name]) # file_paths ps entries"
| "file_paths ps (Other name # entries) = file_paths ps entries"

subsection \<open>Sizes of the files\<close>

text \<open>The sizes of the regular files of a directory tree, in discovery order.\<close>

fun file_sizes :: "fsentry list \<Rightarrow> nat list" where
  "file_sizes [] = []"
| "file_sizes (Dir name listing # entries) =
     (case listing of None \<Rightarrow> [] | Some kids \<Rightarrow> file_sizes kids) @ file_sizes entries"
| "file_sizes (File name st # entries) =
     (case st of None \<Rightarrow> [] | Some (nbytes, creation_date) \<Rightarrow> [nbytes]) @ file_sizes entries"
| "file_sizes (Other name # entries) = file_sizes entries"

text \<open>The number a string of decimal digits denotes.\<close>

definition read_decimal :: "string \<Rightarrow> nat" where
  "read_decimal s = foldl (\<lambda>acc c. 10 * acc + (of_char c - 48)) 0 s"

subsection \<open>Readable trees\<close>

text \<open>Every directory of the tree can be listed and the metadata of every regular file
  can be read.\<close>

fun readable :: "fsentry list \<Rightarrow> bool" where
  "readable [] = True"
| "readable (Dir name listing # entries) =
     ((case listing of None \<Rightarrow> False | Some kids \<Rightarrow> readable kids) \<and> readable entries)"
| "readable (File name st # entries) = (st \<noteq> None \<and> readable entries)"
| "readable (Other name # entries) = readable entries"

subsection \<open>Sample inputs\<close>

text \<open>Globals holding an earlier tree and list, and a storage directory whose second
  top-level directory cannot be listed.\<close>

definition stale_globals :: globals where
  "stale_globals =
     \<lparr>categories = [CategoryEntry 1 ''old''],
      storage_data = [DirItem 1 ''old'' ''Category'' (Some 1) []],
      id_counter = 2, category_id_counter = 2\<rparr>"

definition broken_root :: "fsentry list option" where
  "broken_root = Some [Dir ''a'' (Some [File ''f.txt'' (Some (10, ''01.01.2024''))]), Dir ''b'' None]"

text \<open>The directory \<^verbatim>\<open>Docs\<close> with \<^verbatim>\<open>report.pdf\<close> (2,000,000 bytes) and the subdirectory
  \<^verbatim>\<open>Drafts\<close> holding \<^verbatim>\<open>v1.txt\<close>; a file and a socket beside it at the root; a
  second top-level directory. \<open>sample_tree\<close> is the tree the scan builds from it.\<close>

definition sample_root :: "fsentry list" where
  "sample_root =
     [Dir ''Docs''
        (Some [File ''report.pdf'' (Some (2000000, ''01.02.2024'')),
               Dir ''Drafts'' (Some [File ''v1.txt'' (Some (10, ''02.02.2024''))])]),
      File ''readme'' (Some (1048575, ''03.02.2024'')),
      Other ''sock'',
      Dir ''Img'' (Some [File ''a b.png'' (Some (1048576, ''04.02.2024''))])]"

definition sample_tree :: "node list" where
  "sample_tree =
     [DirItem 1 ''Docs'' ''Category'' (Some 1)
        [FileItem 2 ''report'' ''file'' ''01.02.2024'' ''pdf'' ''1.91 MB''
           ''http://127.0.0.1:5000/files/storage/Docs/report.pdf'' (Some 1),
         DirItem 3 ''Drafts'' ''folder'' (Some 1)
           [FileItem 4 ''v1'' ''file'' ''02.02.2024'' ''txt'' ''0.01 KB''
              ''http://127.0.0.1:5000/files/storage/Docs/Drafts/v1.txt'' (Some 1)]],
      FileItem 5 ''readme'' ''file'' ''03.02.2024'' ''unknown'' ''1024.00 KB''
        ''http://127.0.0.1:5000/files/storage/readme'' None,
      DirItem 6 ''Img'' ''Category'' (Some 2)
        [FileItem 7 ''a b'' ''file'' ''04.02.2024'' ''png'' ''1.00 MB''
           ''http://127.0.0.1:5000/files/storage/Img/a%20b.png'' (Some 2)]]"

text \<open>A listing of the storage directory with the same two directories, other files
  between them, and the second directory unreadable.\<close>

definition reordered_root :: "fsentry list" where
  "reordered_root =
     [File ''notes.txt'' (Some (5, ''05.02.2024'')),
      Dir ''Docs'' (Some []),
      File ''todo'' (Some (7, ''06.02.2024'')),
      Dir ''Img'' None]"

text \<open>A storage directory that may be read but not searched (mode \<^verbatim>\<open>r--\<close>), holding the
  directories \<^verbatim>\<open>Docs\<close> and \<^verbatim>\<open>Img\<close>. \<^verbatim>\<open>os.listdir\<close> returns both names and the \<^verbatim>\<open>stat\<close>
  of each is refused, so \<^verbatim>\<open>os.path.isdir\<close> answers \<^verbatim>\<open>False\<close> for both: that is
  \<open>unsearchable_listed\<close>. \<^verbatim>\<open>os.scandir\<close> yields both as directories, and listing either
  of them raises: that is \<open>unsearchable_scanned\<close>.\<close>

definition unsearchable_listed :: "fsentry list" where
  "unsearchable_listed = [Other ''Docs'', Other ''Img'']"

definition unsearchable_scanned :: "fsentry list" where
  "unsearchable_scanned = [Dir ''Docs'' None, Dir ''Img'' None]"

subsection \<open>What a caller of the handlers observes\<close>

text \<open>The answers of \<^verbatim>\<open>GET /storage\<close> and \<^verbatim>\<open>GET /categories\<close> in a state.\<close>

definition observed :: "globals \<Rightarrow> response \<times> response" where
  "observed g = (get_storage None g, get_categories g)"

text \<open>One refresh as the module runs it, \<^verbatim>\<open>update_categories\<close> and then
  \<^verbatim>\<open>update_storage_data\<close>: a caller served between the two operations observes the pair
  as it was before the refresh or as it is after it.\<close>

definition atomic_refresh :: "fsentry list option \<Rightarrow> globals \<Rightarrow> bool" where
  "atomic_refresh root g =
     (let mid = update_categories root g;
          new = update_storage_data root mid
      in observed mid = observed g \<or> observed mid = observed new)"

section \<open>Properties\<close>

subsection \<open>The subtree query\<close>

lemma find_app:
  "List.find P (xs @ ys) = (case List.find P xs of None \<Rightarrow> List.find P ys | Some x \<Rightarrow> Some x)"
  by (induction xs) auto

lemma find_category_preorder:
  "find_category data cid = List.find (\<lambda>item. idCategory item = Some (Some cid)) (preorder data)"
  by (induction data cid rule: find_category.induct) (auto simp: find_app split: option.splits)

text \<open>
  C3. \<^verbatim>\<open>find_category\<close> returns the first item, in the order parent before children and
  siblings in list order, whose key \<^verbatim>\<open>idCategory\<close> holds the requested id. The handler
  of \<^verbatim>\<open>GET /storage?idCategory=<int>\<close> answers with that item, and with the object
  \<^verbatim>\<open>{"error": "Category not found"}\<close> exactly when no item of the tree holds the id.
\<close>

theorem find_category_first_match:
  "find_category data cid =
     List.find (\<lambda>item. idCategory item = Some (Some cid)) (preorder data) \<and>
   get_storage (Some cid) g =
     (case List.find (\<lambda>item. idCategory item = Some (Some cid)) (preorder (storage_data g)) of
        None \<Rightarrow> JsonObject [(''error'', ''Category not found'')]
      | Some item \<Rightarrow> JsonItem item) \<and>
   ((get_storage (Some cid) g = JsonObject [(''error'', ''Category not found'')]) =
    (\<not> list_ex (\<lambda>item. idCategory item = Some (Some cid)) (preorder (storage_data g))))"
proof -
  let ?P = "\<lambda>item. idCategory item = Some (Some cid)"
  have a: "find_category data cid = List.find ?P (preorder data)"
    by (rule find_category_preorder)
  have b: "get_storage (Some cid) g =
     (case List.find ?P (preorder (storage_data g)) of
        None \<Rightarrow> JsonObject [(''error'', ''Category not found'')]
      | Some item \<Rightarrow> JsonItem item)"
    by (simp add: get_storage_def find_category_preorder)
  have c: "(List.find ?P (preorder (storage_data g)) = None) =
           (\<not> list_ex ?P (preorder (storage_data g)))"
    by (auto simp: find_None_iff list_ex_iff)
  have d: "(get_storage (Some cid) g = JsonObject [(''error'', ''Category not found'')]) =
           (List.find ?P (preorder (storage_data g)) = None)"
    unfolding b by (cases "List.find ?P (preorder (storage_data g))") simp_all
  have e: "(get_storage (Some cid) g = JsonObject [(''error'', ''Category not found'')]) =
           (\<not> list_ex ?P (preorder (storage_data g)))"
    using c d by (rule trans[rotated])
  show ?thesis
    by (intro conjI) (rule a, rule b, rule e)
qed

subsection \<open>The loop, branch by branch\<close>

lemma scan_loop_Dir:
  "scan_loop (Dir name listing # entries) isr pc rel g =
     (case scan_directory listing False (dir_category isr pc g) (path_join rel name) (dir_globals isr g) of
        (Inl e, g3) \<Rightarrow> (Inl e, g3)
      | (Inr kids, g3) \<Rightarrow>
          (case scan_loop entries isr pc rel g3 of
             (Inl e, g4) \<Rightarrow> (Inl e, g4)
           | (Inr result, g4) \<Rightarrow>
               (Inr (DirItem (id_counter g) name (if isr then ''Category'' else ''folder'')
                       (dir_category isr pc g) kids # result), g4)))"
  by (cases isr) (simp_all add: Let_def dir_category_def dir_globals_def
        cong: prod.case_cong sum.case_cong)

lemma scan_loop_Dir_Inr:
  assumes "scan_loop (Dir name listing # entries) isr pc rel g = (Inr r, g')"
  obtains kidsl kids g3 result where
    "listing = Some kidsl"
    "scan_loop kidsl False (dir_category isr pc g) (path_join rel name) (dir_globals isr g) = (Inr kids, g3)"
    "scan_loop entries isr pc rel g3 = (Inr result, g')"
    "r = DirItem (id_counter g) name (if isr then ''Category'' else ''folder'')
           (dir_category isr pc g) kids # result"
  using assms unfolding scan_loop_Dir
  by (cases listing) (auto split: prod.splits sum.splits)

lemma scan_loop_File:
  "scan_loop (File name (Some (nbytes, creation_date)) # entries) isr pc rel g =
     (case scan_loop entries isr pc rel (g\<lparr>id_counter := id_counter g + 1\<rparr>) of
        (Inl e, g2) \<Rightarrow> (Inl e, g2)
      | (Inr result, g2) \<Rightarrow>
          (Inr (FileItem (id_counter g) (fst (splitext name)) ''file'' creation_date
                  (if snd (splitext name) \<noteq> [] then tl (snd (splitext name)) else ''unknown'')
                  (format_file_size nbytes)
                  (BASE_URL @ ''/files/storage/'' @ quote (path_join rel name)) pc # result), g2))"
  by (cases "splitext name") (simp add: Let_def cong: prod.case_cong sum.case_cong)

lemma scan_loop_File_Inr:
  assumes "scan_loop (File name st # entries) isr pc rel g = (Inr r, g')"
  obtains nbytes creation_date result where
    "st = Some (nbytes, creation_date)"
    "scan_loop entries isr pc rel (g\<lparr>id_counter := id_counter g + 1\<rparr>) = (Inr result, g')"
    "r = FileItem (id_counter g) (fst (splitext name)) ''file'' creation_date
                  (if snd (splitext name) \<noteq> [] then tl (snd (splitext name)) else ''unknown'')
                  (format_file_size nbytes)
                  (BASE_URL @ ''/files/storage/'' @ quote (path_join rel name)) pc # result"
proof (cases st)
  case None
  with assms show ?thesis by simp
next
  case (Some p)
  obtain nbytes creation_date where p: "p = (nbytes, creation_date)" by (cases p)
  from assms show ?thesis
    unfolding Some p scan_loop_File
    by (auto split: prod.splits sum.splits intro: that[OF Some[unfolded p]])
qed


lemma scan_ok_induct [consumes 1, case_names Nil Dir File Other]:
  assumes run: "scan_loop es isr pc rel g = (Inr r, g')"
  assumes c_nil: "\<And>isr pc rel g. P [] isr pc rel g [] g"
  assumes c_dir: "\<And>name kidsl entries isr pc rel g kids g3 result g'.
      scan_loop kidsl False (dir_category isr pc g) (path_join rel name) (dir_globals isr g) = (Inr kids, g3) \<Longrightarrow>
      P kidsl False (dir_category isr pc g) (path_join rel name) (dir_globals isr g) kids g3 \<Longrightarrow>
      scan_loop entries isr pc rel g3 = (Inr result, g') \<Longrightarrow>
      P entries isr pc rel g3 result g' \<Longrightarrow>
      P (Dir name (Some kidsl) # entries) isr pc rel g
        (DirItem (id_counter g) name (if isr then ''Category'' else ''folder'')
           (dir_category isr pc g) kids # result) g'"
  assumes c_file: "\<And>name nbytes creation_date entries isr pc rel g result g'.
      scan_loop entries isr pc rel (g\<lparr>id_counter := id_counter g + 1\<rparr>) = (Inr result, g') \<Longrightarrow>
      P entries isr pc rel (g\<lparr>id_counter := id_counter g + 1\<rparr>) result g' \<Longrightarrow>
      P (File name (Some (nbytes, creation_date)) # entries) isr pc rel g
        (FileItem (id_counter g) (fst (splitext name)) ''file'' creation_date
           (if snd (splitext name) \<noteq> [] then tl (snd (splitext name)) else ''unknown'')
           (format_file_size nbytes)
           (BASE_URL @ ''/files/storage/'' @ quote (path_join rel name)) pc # result) g'"
  assumes c_other: "\<And>name entries isr pc rel g result g'.
      scan_loop entries isr pc rel g = (Inr result, g') \<Longrightarrow>
      P entries isr pc rel g result g' \<Longrightarrow>
      P (Other name # entries) isr pc rel g result g'"
  shows "P es isr pc rel g r g'"
  using run
proof (induction es arbitrary: isr pc rel g r g' rule: measure_induct_rule[where f = "size_list size"])
  case (less es)
  show ?case
  proof (cases es)
    case Nil
    with less.prems show ?thesis by (simp add: c_nil)
  next
    case (Cons e entries)
    show ?thesis
    proof (cases e)
      case (Dir name listing)
      from less.prems[unfolded Cons Dir] obtain kidsl kids g3 result where
        l: "listing = Some kidsl" and
        s1: "scan_loop kidsl False (dir_category isr pc g) (path_join rel name) (dir_globals isr g) = (Inr kids, g3)" and
        s2: "scan_loop entries isr pc rel g3 = (Inr result, g')" and
        r: "r = DirItem (id_counter g) name (if isr then ''Category'' else ''folder'')
                 (dir_category isr pc g) kids # result"
        by (rule scan_loop_Dir_Inr)
      have m1: "size_list size kidsl < size_list size es" by (simp add: Cons Dir l)
      have m2: "size_list size entries < size_list size es" by (simp add: Cons)
      show ?thesis
        unfolding Cons Dir l r
        by (rule c_dir[OF s1 less.IH[OF m1 s1] s2 less.IH[OF m2 s2]])
    next
      case (File name st)
      from less.prems[unfolded Cons File] obtain nbytes creation_date result where
        st: "st = Some (nbytes, creation_date)" and
        s: "scan_loop entries isr pc rel (g\<lparr>id_counter := id_counter g + 1\<rparr>) = (Inr result, g')" and
        r: "r = FileItem (id_counter g) (fst (splitext name)) ''file'' creation_date
                  (if snd (splitext name) \<noteq> [] then tl (snd (splitext name)) else ''unknown'')
                  (format_file_size nbytes)
                  (BASE_URL @ ''/files/storage/'' @ quote (path_join rel name)) pc # result"
        by (rule scan_loop_File_Inr)
      have m: "size_list size entries < size_list size es" by (simp add: Cons)
      show ?thesis
        unfolding Cons File st r
        by (rule c_file[OF s less.IH[OF m s]])
    next
      case (Other name)
      from less.prems have s: "scan_loop entries isr pc rel g = (Inr r, g')"
        by (simp add: Cons Other)
      have m: "size_list size entries < size_list size es" by (simp add: Cons)
      show ?thesis
        unfolding Cons Other
        by (rule c_other[OF s less.IH[OF m s]])
    qed
  qed
qed

declare scan_loop.simps(2,4) [simp del]

subsection \<open>A scan never writes the published globals\<close>

lemma dir_globals_published [simp]:
  "storage_data (dir_globals isr g) = storage_data g"
  "categories (dir_globals isr g) = categories g"
  by (simp_all add: dir_globals_def)

lemma scan_loop_published:
  "storage_data (snd (scan_loop es isr pc rel g)) = storage_data g \<and>
   categories (snd (scan_loop es isr pc rel g)) = categories g"
proof (induction es arbitrary: isr pc rel g rule: measure_induct_rule[where f = "size_list size"])
  case (less es)
  show ?case
  proof (cases es)
    case Nil
    then show ?thesis by simp
  next
    case (Cons e entries)
    have m2: "size_list size entries < size_list size es" by (simp add: Cons)
    note ih2 = less.IH[OF m2]
    show ?thesis
    proof (cases e)
      case (Dir name listing)
      show ?thesis
      proof (cases listing)
        case None
        then show ?thesis by (simp add: Cons Dir scan_loop_Dir)
      next
        case (Some kidsl)
        have m1: "size_list size kidsl < size_list size es" by (simp add: Cons Dir Some)
        obtain r1 g3 where s1: "scan_loop kidsl False (dir_category isr pc g) (path_join rel name) (dir_globals isr g) = (r1, g3)"
          by force
        obtain r2 g4 where s2: "scan_loop entries isr pc rel g3 = (r2, g4)"
          by force
        from less.IH[OF m1, of False "dir_category isr pc g" "path_join rel name" "dir_globals isr g"] s1
        have p1: "storage_data g3 = storage_data g \<and> categories g3 = categories g" by simp
        from ih2[of isr pc rel g3] s2
        have p2: "storage_data g4 = storage_data g3 \<and> categories g4 = categories g3" by simp
        show ?thesis
          using p1 p2 s1 s2
          by (cases r1; cases r2) (simp_all add: Cons Dir Some scan_loop_Dir)
      qed
    next
      case (File name st)
      show ?thesis
      proof (cases st)
        case None
        then show ?thesis by (simp add: Cons File)
      next
        case (Some p)
        obtain nbytes creation_date where p: "p = (nbytes, creation_date)" by (cases p)
        obtain r2 g4 where s2: "scan_loop entries isr pc rel (g\<lparr>id_counter := id_counter g + 1\<rparr>) = (r2, g4)"
          by force
        from ih2[of isr pc rel "g\<lparr>id_counter := id_counter g + 1\<rparr>"] s2
        have p2: "storage_data g4 = storage_data g \<and> categories g4 = categories g" by simp
        show ?thesis
          using p2 s2 by (cases r2) (simp_all add: Cons File Some p scan_loop_File)
      qed
    next
      case (Other name)
      then show ?thesis using ih2[of isr pc rel g] by (simp add: Cons)
    qed
  qed
qed

lemma scan_directory_published:
  "storage_data (snd (scan_directory root isr pc rel g)) = storage_data g \<and>
   categories (snd (scan_directory root isr pc rel g)) = categories g"
  by (cases root) (simp_all add: scan_loop_published)


text \<open>
  A refresh that raises. When the scan raises (at the root or anywhere below it),
  \<^verbatim>\<open>update_storage_data\<close> leaves the published tree and the category list as they were,
  and both handlers answer as before. When listing the root raises, \<^verbatim>\<open>update_categories\<close>
  changes nothing. Neither refresh operation ever writes the other one's global. Both
  operations return globals in every case: the error is caught inside them.
\<close>

theorem failed_refresh_keeps_published:
  "(fst (scan_directory root True None [] (g\<lparr>id_counter := 1, category_id_counter := 1\<rparr>)) = Inl e \<longrightarrow>
      storage_data (update_storage_data root g) = storage_data g \<and>
      categories (update_storage_data root g) = categories g \<and>
      get_storage q (update_storage_data root g) = get_storage q g \<and>
      get_categories (update_storage_data root g) = get_categories g) \<and>
   update_categories None g = g \<and>
   categories (update_storage_data root g) = categories g \<and>
   storage_data (update_categories root g) = storage_data g"
proof -
  let ?g0 = "g\<lparr>id_counter := 1, category_id_counter := 1\<rparr>"
  obtain res g1 where s: "scan_directory root True None [] ?g0 = (res, g1)"
    by force
  from scan_directory_published[of root True None "[]" ?g0] s
  have p: "storage_data g1 = storage_data g" "categories g1 = categories g"
    by simp_all
  have u: "update_storage_data root g = (case res of Inr tree \<Rightarrow> g1\<lparr>storage_data := tree\<rparr> | Inl e \<Rightarrow> g1)"
    by (simp add: update_storage_data_def s split: sum.splits)
  have c: "categories (update_storage_data root g) = categories g"
    unfolding u using p by (cases res) simp_all
  have f: "res = Inl e \<Longrightarrow> storage_data (update_storage_data root g) = storage_data g"
    unfolding u using p by simp
  have a: "fst (scan_directory root True None [] ?g0) = Inl e \<longrightarrow>
      storage_data (update_storage_data root g) = storage_data g \<and>
      categories (update_storage_data root g) = categories g \<and>
      get_storage q (update_storage_data root g) = get_storage q g \<and>
      get_categories (update_storage_data root g) = get_categories g"
  proof
    assume "fst (scan_directory root True None [] ?g0) = Inl e"
    then have r: "res = Inl e" by (simp add: s)
    have sd: "storage_data (update_storage_data root g) = storage_data g" by (rule f[OF r])
    show "storage_data (update_storage_data root g) = storage_data g \<and>
      categories (update_storage_data root g) = categories g \<and>
      get_storage q (update_storage_data root g) = get_storage q g \<and>
      get_categories (update_storage_data root g) = get_categories g"
      by (simp add: sd c get_storage_def get_categories_def cong: option.case_cong)
  qed
  have b: "update_categories None g = g"
    by (simp add: update_categories_def)
  have d: "storage_data (update_categories root g) = storage_data g"
    by (cases root) (simp_all add: update_categories_def Let_def)
  show ?thesis
    by (intro conjI) (rule a, rule b, rule c, rule d)
qed

theorem failed_refresh_keeps_published_witness:
  "fst (scan_directory broken_root True None []
          (stale_globals\<lparr>id_counter := 1, category_id_counter := 1\<rparr>)) = Inl OSError \<and>
   storage_data (update_storage_data broken_root stale_globals) =
     [DirItem 1 ''old'' ''Category'' (Some 1) []] \<and>
   categories (update_storage_data broken_root stale_globals) = [CategoryEntry 1 ''old''] \<and>
   get_storage (Some 1) (update_storage_data broken_root stale_globals) =
     JsonItem (DirItem 1 ''old'' ''Category'' (Some 1) [])"
proof -
  have h: "fst (scan_directory broken_root True None []
          (stale_globals\<lparr>id_counter := 1, category_id_counter := 1\<rparr>)) = Inl OSError"
    by (simp add: broken_root_def scan_loop_Dir scan_loop_File)
  from failed_refresh_keeps_published[of broken_root stale_globals OSError "Some 1"] h
  show ?thesis
    by (simp add: stale_globals_def get_storage_def)
qed

text \<open>
  C4, where the code breaks it. On a storage directory that can be listed while the
  \<^verbatim>\<open>stat\<close> of its entries fails (permission denied, an I/O failure), nothing raises in
  \<^verbatim>\<open>update_categories\<close>: \<^verbatim>\<open>os.path.isdir\<close> answers \<^verbatim>\<open>False\<close> for every entry and the
  published category list is replaced by the empty list. The scan of the same directory
  raises, and \<^verbatim>\<open>update_storage_data\<close> keeps the published tree.
\<close>

theorem unsearchable_root_clears_categories:
  "categories stale_globals = [CategoryEntry 1 ''old''] \<and>
   categories (update_categories (Some unsearchable_listed) stale_globals) = [] \<and>
   get_categories (update_categories (Some unsearchable_listed) stale_globals) = JsonCategories [] \<and>
   fst (scan_directory (Some unsearchable_scanned) True None []
          (stale_globals\<lparr>id_counter := 1, category_id_counter := 1\<rparr>)) = Inl OSError \<and>
   storage_data (update_storage_data (Some unsearchable_scanned) stale_globals) =
     storage_data stale_globals"
proof -
  have a: "categories stale_globals = [CategoryEntry 1 ''old'']"
    by (simp add: stale_globals_def)
  have b: "categories (update_categories (Some unsearchable_listed) stale_globals) = []"
    by (simp add: update_categories_def unsearchable_listed_def)
  have c: "get_categories (update_categories (Some unsearchable_listed) stale_globals) =
           JsonCategories []"
    by (simp add: get_categories_def b)
  have d: "scan_directory (Some unsearchable_scanned) True None []
          (stale_globals\<lparr>id_counter := 1, category_id_counter := 1\<rparr>) =
          (Inl OSError, stale_globals\<lparr>id_counter := 2, category_id_counter := 2\<rparr>)"
    by (simp add: unsearchable_scanned_def scan_loop_Dir dir_globals_def)
  have e: "storage_data (update_storage_data (Some unsearchable_scanned) stale_globals) =
           storage_data stale_globals"
    using d by (simp add: update_storage_data_def)
  show ?thesis
    using a b c d e by simp
qed

subsection \<open>When a scan succeeds\<close>

text \<open>A scan returns a tree exactly when the tree it walks is readable; otherwise it
  returns the error.\<close>

lemma scan_loop_succeeds:
  "(\<exists>tree. fst (scan_loop es isr pc rel g) = Inr tree) = readable es"
proof (induction es arbitrary: isr pc rel g rule: measure_induct_rule[where f = "size_list size"])
  case (less es)
  show ?case
  proof (cases es)
    case Nil
    then show ?thesis by simp
  next
    case (Cons e entries)
    have m2: "size_list size entries < size_list size es" by (simp add: Cons)
    note ih2 = less.IH[OF m2]
    show ?thesis
    proof (cases e)
      case (Dir name listing)
      show ?thesis
      proof (cases listing)
        case None
        then show ?thesis by (simp add: Cons Dir scan_loop_Dir)
      next
        case (Some kidsl)
        have m1: "size_list size kidsl < size_list size es" by (simp add: Cons Dir Some)
        obtain r1 g3 where s1: "scan_loop kidsl False (dir_category isr pc g) (path_join rel name) (dir_globals isr g) = (r1, g3)"
          by force
        obtain r2 g4 where s2: "scan_loop entries isr pc rel g3 = (r2, g4)"
          by force
        from less.IH[OF m1, of False "dir_category isr pc g" "path_join rel name" "dir_globals isr g"] s1
        have p1: "(\<exists>tree. r1 = Inr tree) = readable kidsl" by simp
        from ih2[of isr pc rel g3] s2
        have p2: "(\<exists>tree. r2 = Inr tree) = readable entries" by simp
        show ?thesis
          using p1 p2 s1 s2
          by (cases r1; cases r2) (simp_all add: Cons Dir Some scan_loop_Dir)
      qed
    next
      case (File name st)
      show ?thesis
      proof (cases st)
        case None
        then show ?thesis by (simp add: Cons File)
      next
        case (Some p)
        obtain nbytes creation_date where p: "p = (nbytes, creation_date)" by (cases p)
        obtain r2 g4 where s2: "scan_loop entries isr pc rel (g\<lparr>id_counter := id_counter g + 1\<rparr>) = (r2, g4)"
          by force
        from ih2[of isr pc rel "g\<lparr>id_counter := id_counter g + 1\<rparr>"] s2
        have p2: "(\<exists>tree. r2 = Inr tree) = readable entries" by simp
        show ?thesis
          using p2 s2 by (cases r2) (simp_all add: Cons File Some p scan_loop_File)
      qed
    next
      case (Other name)
      then show ?thesis using ih2[of isr pc rel g] by (simp add: Cons)
    qed
  qed
qed

lemma update_storage_data_succeeds:
  "readable entries \<Longrightarrow>
   \<exists>tree g1. scan_directory (Some entries) True None []
                (g\<lparr>id_counter := 1, category_id_counter := 1\<rparr>) = (Inr tree, g1)"
  using scan_loop_succeeds[of entries True None "[]" "g\<lparr>id_counter := 1, category_id_counter := 1\<rparr>"]
  by (cases "scan_loop entries True None [] (g\<lparr>id_counter := 1, category_id_counter := 1\<rparr>)") auto

subsection \<open>Size strings of sizes below \<open>2 ^ 53\<close>\<close>

lemma float_shift_small: "n < 2 ^ 53 \<Longrightarrow> float_shift n = 0"
  by simp

lemma round_half_even_one: "round_half_even a (Suc 0) = a"
  by (simp add: round_half_even_def)

lemma nearest_double_small: "n < 2 ^ 53 \<Longrightarrow> nearest_double n = n"
  by (simp add: nearest_double_def float_shift_small round_half_even_one del: float_shift.simps)

lemma format_file_size_KB:
  "n < 1048576 \<Longrightarrow> format_file_size n = format_2f n 1024 @ '' KB''"
  by (simp add: format_file_size_def nearest_double_small del: float_shift.simps)

lemma format_file_size_MB:
  "1048576 \<le> n \<Longrightarrow> format_file_size n = format_2f (nearest_double n) 1048576 @ '' MB''"
  by (simp add: format_file_size_def)

lemma digit_chars:
  "digit_char 0 = CHR ''0''" "digit_char 1 = CHR ''1''" "digit_char 2 = CHR ''2''"
  "digit_char 3 = CHR ''3''" "digit_char 4 = CHR ''4''" "digit_char 5 = CHR ''5''"
  "digit_char 6 = CHR ''6''" "digit_char 7 = CHR ''7''" "digit_char 8 = CHR ''8''"
  "digit_char 9 = CHR ''9''" "digit_char (Suc 0) = CHR ''1''"
  by (simp_all add: digit_char_def char_of_def bit_iff_odd)

subsection \<open>The scan of the sample directory\<close>

lemma sample_sizes:
  "format_file_size 2000000 = ''1.91 MB''"
  "format_file_size 10 = ''0.01 KB''"
  "format_file_size 1048575 = ''1024.00 KB''"
  "format_file_size 1048576 = ''1.00 MB''"
  by (simp_all add: format_file_size_KB format_file_size_MB nearest_double_small format_2f_def
        round_half_even_def digit_chars Let_def del: float_shift.simps)
lemma sample_names:
  "splitext ''report.pdf'' = (''report'', ''.pdf'')"
  "splitext ''v1.txt'' = (''v1'', ''.txt'')"
  "splitext ''readme'' = (''readme'', [])"
  "splitext ''a b.png'' = (''a b'', ''.png'')"
  by (simp_all add: splitext_def Let_def upt_rec)

lemma sample_urls:
  "quote ''Docs/report.pdf'' = ''Docs/report.pdf''"
  "quote ''Docs/Drafts/v1.txt'' = ''Docs/Drafts/v1.txt''"
  "quote ''readme'' = ''readme''"
  "quote ''Img/a b.png'' = ''Img/a%20b.png''"
  by (simp_all add: quote_def quote_byte_def quote_safe_def hex_char_def Let_def
        char_of_def bit_iff_odd)

lemma sample_scan:
  "scan_directory (Some sample_root) True None []
     (g\<lparr>id_counter := 1, category_id_counter := 1\<rparr>) =
   (Inr sample_tree, g\<lparr>id_counter := 8, category_id_counter := 3\<rparr>)"
  by (simp add: sample_root_def sample_tree_def scan_loop_Dir scan_loop_File dir_category_def
        dir_globals_def path_join_def BASE_URL_def sample_sizes sample_names sample_urls)


subsection \<open>Node ids\<close>

lemma upto_append: "a \<le> b \<Longrightarrow> b \<le> c \<Longrightarrow> [a..b - 1] @ [b..c - 1] = [a..c - 1]" for a b c :: int
proof (cases "b = c")
  case True
  then show ?thesis by simp
next
  case False
  assume "a \<le> b" "b \<le> c"
  with False show ?thesis using upto_split1[of a b "c - 1"] by simp
qed

lemma dir_globals_id [simp]: "id_counter (dir_globals isr g) = id_counter g + 1"
  by (simp add: dir_globals_def)

lemma scan_loop_ids:
  assumes "scan_loop es isr pc rel g = (Inr r, g')"
  shows "map item_id (preorder r) = [id_counter g..id_counter g' - 1] \<and>
         id_counter g \<le> id_counter g' \<and>
         map item_name (preorder r) = discovered es"
  using assms
proof (induction rule: scan_ok_induct)
  case (Nil isr pc rel g)
  show ?case by simp
next
  case (Dir name kidsl entries isr pc rel g kids g3 result g')
  from Dir.IH(1) have k: "map item_id (preorder kids) = [id_counter g + 1..id_counter g3 - 1]"
    and k1: "id_counter g + 1 \<le> id_counter g3"
    and kn: "map item_name (preorder kids) = discovered kidsl" by simp_all
  from Dir.IH(2) have e: "map item_id (preorder result) = [id_counter g3..id_counter g' - 1]"
    and e1: "id_counter g3 \<le> id_counter g'"
    and en: "map item_name (preorder result) = discovered entries" by simp_all
  have "[id_counter g..id_counter g' - 1] = id_counter g # [id_counter g + 1..id_counter g' - 1]"
    using k1 e1 by (intro upto_rec1) simp
  also have "[id_counter g + 1..id_counter g' - 1] =
             [id_counter g + 1..id_counter g3 - 1] @ [id_counter g3..id_counter g' - 1]"
    using upto_append[OF k1 e1] by simp
  finally show ?case using k e k1 e1 kn en by simp
next
  case (File name nbytes creation_date entries isr pc rel g result g')
  from File.IH have e: "map item_id (preorder result) = [id_counter g + 1..id_counter g' - 1]"
    and e1: "id_counter g + 1 \<le> id_counter g'"
    and en: "map item_name (preorder result) = discovered entries" by simp_all
  have "[id_counter g..id_counter g' - 1] = id_counter g # [id_counter g + 1..id_counter g' - 1]"
    using e1 by (intro upto_rec1) simp
  then show ?case using e e1 en by simp
next
  case (Other name entries isr pc rel g result g')
  then show ?case by simp
qed


text \<open>
  C2. \<^verbatim>\<open>update_storage_data\<close> resets the allocator to 1; a scan that succeeds then
  publishes a tree whose ids, read parent before children and siblings in list order,
  are 1, 2, 3, ... up to the number of directories and files met, and the items stand in
  the order the depth-first walk of the file system discovers their entries. So the ids of
  one pass are distinct and strictly increasing in discovery order.
\<close>

theorem scan_ids_depth_first:
  assumes "scan_directory (Some entries) True None []
             (g\<lparr>id_counter := 1, category_id_counter := 1\<rparr>) = (Inr tree, g1)"
  shows "storage_data (update_storage_data (Some entries) g) = tree \<and>
         map item_id (preorder tree) = [1..int (length (discovered entries))] \<and>
         map item_name (preorder tree) = discovered entries \<and>
         distinct (map item_id (preorder tree)) \<and>
         sorted_wrt (<) (map item_id (preorder tree))"
proof -
  let ?g0 = "g\<lparr>id_counter := 1, category_id_counter := 1\<rparr>"
  from assms have run: "scan_loop entries True None [] ?g0 = (Inr tree, g1)"
    by simp
  from scan_loop_ids[OF run]
  have ids: "map item_id (preorder tree) = [1..id_counter g1 - 1]"
    and le: "1 \<le> id_counter g1"
    and names: "map item_name (preorder tree) = discovered entries"
    by simp_all
  have "length (discovered entries) = length (map item_name (preorder tree))"
    by (simp only: names)
  also have "\<dots> = length (map item_id (preorder tree))"
    by simp
  also have "\<dots> = nat (id_counter g1 - 1)"
    by (simp only: ids length_upto)
  finally have n: "int (length (discovered entries)) = id_counter g1 - 1"
    using le by simp
  have st: "storage_data (update_storage_data (Some entries) g) = tree"
    using assms by (simp add: update_storage_data_def)
  show ?thesis
    using st names by (simp add: ids n)
qed

theorem scan_ids_depth_first_witness:
  "scan_directory (Some sample_root) True None []
     (initial_globals\<lparr>id_counter := 1, category_id_counter := 1\<rparr>) =
     (Inr sample_tree, initial_globals\<lparr>id_counter := 8, category_id_counter := 3\<rparr>) \<and>
   storage_data (update_storage_data (Some sample_root) initial_globals) = sample_tree \<and>
   map item_id (preorder sample_tree) = [1, 2, 3, 4, 5, 6, 7] \<and>
   map item_name (preorder sample_tree) =
     [''Docs'', ''report'', ''Drafts'', ''v1'', ''readme'', ''Img'', ''a b'']"
proof -
  have d: "discovered sample_root =
             [''Docs'', ''report'', ''Drafts'', ''v1'', ''readme'', ''Img'', ''a b'']"
    by (simp add: sample_root_def sample_names)
  have u: "[1..7] = [1, 2, 3, 4, 5, 6, 7::int]"
    by (simp add: upto_rec1)
  from scan_ids_depth_first[OF sample_scan[of initial_globals]] sample_scan[of initial_globals]
  show ?thesis
    by (simp add: d u)
qed

subsection \<open>Category ids\<close>

lemma dir_globals_cat [simp]:
  "category_id_counter (dir_globals isr g) = (if isr then category_id_counter g + 1 else category_id_counter g)"
  by (simp add: dir_globals_def)

lemma dir_category_simps [simp]:
  "dir_category True pc g = Some (category_id_counter g)"
  "dir_category False pc g = pc"
  by (simp_all add: dir_category_def)

lemma below_category_simps [simp]:
  "below_category c []"
  "below_category c (DirItem i n t c' kids # data) =
     (c' = c \<and> t \<noteq> ''Category'' \<and> below_category c kids \<and> below_category c data)"
  "below_category c (FileItem i n t d ft fs url c' # data) =
     (c' = c \<and> t \<noteq> ''Category'' \<and> below_category c data)"
  by (auto simp: below_category_def)

lemma scan_loop_below:
  assumes "scan_loop es isr pc rel g = (Inr r, g')"
  shows "\<not> isr \<longrightarrow> below_category pc r \<and> category_id_counter g' = category_id_counter g"
  using assms
  by (induction rule: scan_ok_induct) (auto simp: dir_category_def)

lemma scan_loop_numbered:
  assumes "scan_loop es isr pc rel g = (Inr r, g')"
  shows "isr \<longrightarrow> numbered_from pc (category_id_counter g) r \<and>
           category_id_counter g \<le> category_id_counter g' \<and>
           map fst (top_categories r) =
             map Some [category_id_counter g..category_id_counter g' - 1] \<and>
           map snd (top_categories r) = map entry_name (filter is_dir es)"
  using assms
proof (induction rule: scan_ok_induct)
  case (Nil isr pc rel g)
  show ?case by simp
next
  case (Dir name kidsl entries isr pc rel g kids g3 result g')
  show ?case
  proof
    assume r: isr
    from scan_loop_below[OF Dir.hyps(1)] r
    have b: "below_category (Some (category_id_counter g)) kids"
      and c3: "category_id_counter g3 = category_id_counter g + 1"
      by simp_all
    from Dir.IH(2) r c3
    have n: "numbered_from pc (category_id_counter g + 1) result"
      and c': "category_id_counter g + 1 \<le> category_id_counter g'"
      and t1: "map fst (top_categories result) =
                 map Some [category_id_counter g + 1..category_id_counter g' - 1]"
      and t2: "map snd (top_categories result) = map entry_name (filter is_dir entries)"
      by simp_all
    have u: "[category_id_counter g..category_id_counter g' - 1] =
             category_id_counter g # [category_id_counter g + 1..category_id_counter g' - 1]"
      using c' by (intro upto_rec1) simp
    show "numbered_from pc (category_id_counter g)
            (DirItem (id_counter g) name (if isr then ''Category'' else ''folder'')
               (dir_category isr pc g) kids # result) \<and>
          category_id_counter g \<le> category_id_counter g' \<and>
          map fst (top_categories (DirItem (id_counter g) name
               (if isr then ''Category'' else ''folder'') (dir_category isr pc g) kids # result)) =
             map Some [category_id_counter g..category_id_counter g' - 1] \<and>
          map snd (top_categories (DirItem (id_counter g) name
               (if isr then ''Category'' else ''folder'') (dir_category isr pc g) kids # result)) =
             map entry_name (filter is_dir (Dir name (Some kidsl) # entries))"
      using r b n c' t1 t2 by (simp add: u)
  qed
next
  case (File name nbytes creation_date entries isr pc rel g result g')
  then show ?case by simp
next
  case (Other name entries isr pc rel g result g')
  then show ?case by simp
qed

lemma numbered_inherits: "numbered_from None k tree \<Longrightarrow> inherits_category tree"
  by (induction "None :: int option" k tree rule: numbered_from.induct)
     (simp_all add: inherits_category_def)

text \<open>
  C1, as the code has it. In a tree published by one scan pass every top-level directory
  item is a Category; every folder and file below it, at any depth, carries the value of
  the Category's key \<^verbatim>\<open>idCategory\<close> (a folder under its own key \<^verbatim>\<open>idCategory\<close>, a file
  under \<^verbatim>\<open>categoryId\<close>), and no item below it is a Category, so that Category is its
  nearest Category ancestor. A file directly under the scan root carries \<open>None\<close>.
\<close>

theorem category_id_inherited:
  assumes "scan_directory (Some entries) True None []
             (g\<lparr>id_counter := 1, category_id_counter := 1\<rparr>) = (Inr tree, g1)"
  shows "storage_data (update_storage_data (Some entries) g) = tree \<and> inherits_category tree"
proof -
  let ?g0 = "g\<lparr>id_counter := 1, category_id_counter := 1\<rparr>"
  from assms have run: "scan_loop entries True None [] ?g0 = (Inr tree, g1)"
    by simp
  from scan_loop_numbered[OF run] have "numbered_from None 1 tree"
    by simp
  then have "inherits_category tree"
    by (rule numbered_inherits)
  moreover have "storage_data (update_storage_data (Some entries) g) = tree"
    using assms by (simp add: update_storage_data_def)
  ultimately show ?thesis by simp
qed

theorem category_id_inherited_witness:
  "scan_directory (Some sample_root) True None []
     (initial_globals\<lparr>id_counter := 1, category_id_counter := 1\<rparr>) =
     (Inr sample_tree, initial_globals\<lparr>id_counter := 8, category_id_counter := 3\<rparr>) \<and>
   storage_data (update_storage_data (Some sample_root) initial_globals) = sample_tree \<and>
   inherits_category sample_tree \<and>
   map category_of (preorder sample_tree) =
     [Some 1, Some 1, Some 1, Some 1, None, Some 2, Some 2]"
proof -
  have c: "map category_of (preorder sample_tree) =
     [Some 1, Some 1, Some 1, Some 1, None, Some 2, Some 2]"
    by (simp add: sample_tree_def)
  from category_id_inherited[OF sample_scan[of initial_globals]] sample_scan[of initial_globals] c
  show ?thesis by simp
qed

text \<open>
  C1, as stated, asks for the Category's \<^verbatim>\<open>id\<close>. The category id comes from
  \<^verbatim>\<open>category_id_counter\<close>, the id from \<^verbatim>\<open>id_counter\<close>: in the sample tree the
  Category \<^verbatim>\<open>Img\<close> has id 6 and category id 2, and its file carries 2.
\<close>

theorem category_id_is_not_node_id:
  "\<not> inherits_node_id (storage_data (update_storage_data (Some sample_root) initial_globals))"
proof -
  have "storage_data (update_storage_data (Some sample_root) initial_globals) = sample_tree"
    using sample_scan[of initial_globals] by (simp add: update_storage_data_def)
  moreover have "\<not> inherits_node_id sample_tree"
    by (simp add: inherits_node_id_def sample_tree_def)
  ultimately show ?thesis by simp
qed

subsection \<open>Looking a category up in a scanned tree\<close>

lemma idCategory_category_of: "idCategory item = Some x \<Longrightarrow> category_of item = x"
  by (cases item) simp_all

lemma below_no_match:
  assumes "below_category c kids" "c \<noteq> Some cid"
  shows "find_category kids cid = None"
proof -
  have "\<not> (\<exists>item. item \<in> set (preorder kids) \<and> idCategory item = Some (Some cid))"
  proof
    assume "\<exists>item. item \<in> set (preorder kids) \<and> idCategory item = Some (Some cid)"
    then obtain item where i: "item \<in> set (preorder kids)" and m: "idCategory item = Some (Some cid)"
      by blast
    from assms(1) i have "category_of item = c"
      by (simp add: below_category_def list_all_iff)
    with idCategory_category_of[OF m] assms(2) show False by simp
  qed
  then show ?thesis
    by (simp add: find_category_preorder find_None_iff)
qed

lemma numbered_no_match:
  "numbered_from pc k tree \<Longrightarrow> cid < k \<Longrightarrow> find_category tree cid = None"
proof (induction pc k tree rule: numbered_from.induct)
  case (1 pc k)
  show ?case by simp
next
  case (2 pc k i n t c kids data)
  from "2.prems" have c: "c = Some k" and b: "below_category c kids"
    and r: "numbered_from pc (k + 1) data" by auto
  from b c "2.prems"(2) have "find_category kids cid = None"
    by (intro below_no_match[of c]) simp_all
  moreover from "2.IH"[OF r] "2.prems"(2) have "find_category data cid = None" by simp
  ultimately show ?case using c "2.prems"(2) by simp
next
  case (3 pc k i n t d ft fs url c data)
  then show ?case by simp
qed

lemma numbered_top_ge:
  "numbered_from pc k tree \<Longrightarrow> (Some cid, name) \<in> set (top_categories tree) \<Longrightarrow> k \<le> cid"
  by (induction pc k tree rule: numbered_from.induct) auto

lemma numbered_find:
  "numbered_from pc k tree \<Longrightarrow> (Some cid, name) \<in> set (top_categories tree) \<Longrightarrow>
   \<exists>i kids. find_category tree cid = Some (DirItem i name ''Category'' (Some cid) kids) \<and>
            DirItem i name ''Category'' (Some cid) kids \<in> set tree"
proof (induction pc k tree rule: numbered_from.induct)
  case (1 pc k)
  then show ?case by simp
next
  case (2 pc k i n t c kids data)
  from "2.prems" have c: "c = Some k" and t: "t = ''Category''" and b: "below_category c kids"
    and r: "numbered_from pc (k + 1) data" by auto
  show ?case
  proof (cases "cid = k")
    case True
    have "name = n"
    proof (rule ccontr)
      assume "name \<noteq> n"
      with "2.prems"(2) True c have "(Some k, name) \<in> set (top_categories data)" by simp
      from numbered_top_ge[OF r this] show False by simp
    qed
    with True c t show ?thesis by simp
  next
    case False
    with "2.prems"(2) c have m: "(Some cid, name) \<in> set (top_categories data)" by simp
    from b c False have "find_category kids cid = None"
      by (intro below_no_match[of c]) simp_all
    with "2.IH"[OF r m] False c show ?thesis by auto
  qed
next
  case (3 pc k i n t d ft fs url c data)
  then show ?case by auto
qed

lemma numbered_present:
  "numbered_from pc k tree \<Longrightarrow> item \<in> set (preorder tree) \<Longrightarrow>
   idCategory item = Some (Some cid) \<Longrightarrow> \<exists>name. (Some cid, name) \<in> set (top_categories tree)"
proof (induction pc k tree rule: numbered_from.induct)
  case (1 pc k)
  then show ?case by simp
next
  case (2 pc k i n t c kids data)
  from "2.prems"(1) have c: "c = Some k" and b: "below_category c kids"
    and r: "numbered_from pc (k + 1) data" by auto
  from "2.prems"(2) consider "item = DirItem i n t c kids" | "item \<in> set (preorder kids)"
    | "item \<in> set (preorder data)" by auto
  then show ?case
  proof cases
    case 1
    with "2.prems"(3) show ?thesis by auto
  next
    case 2
    with b have "category_of item = c" by (simp add: below_category_def list_all_iff)
    with idCategory_category_of[OF "2.prems"(3)] show ?thesis by auto
  next
    case 3
    from "2.IH"[OF r 3 "2.prems"(3)] show ?thesis by auto
  qed
next
  case (3 pc k i n t d ft fs url c data)
  then show ?case by auto
qed


lemma sample_find:
  "find_category sample_tree 1 = Some (sample_tree ! 0)"
  "find_category sample_tree 2 = Some (sample_tree ! 2)"
  by (simp_all add: sample_tree_def)

text \<open>
  C9. In a tree published by a scan, take any item that holds a category id under the key
  \<^verbatim>\<open>idCategory\<close>, at any depth. Looking that id up returns a top-level item of the tree
  whose type is Category and whose own \<^verbatim>\<open>idCategory\<close> is the id: never a folder below
  it, and never a file item, which has no key \<^verbatim>\<open>idCategory\<close>.
\<close>

theorem category_lookup_returns_category:
  assumes "scan_directory (Some entries) True None []
             (g\<lparr>id_counter := 1, category_id_counter := 1\<rparr>) = (Inr tree, g1)"
    and "item \<in> set (preorder tree)"
    and "idCategory item = Some (Some cid)"
  shows "\<exists>i name kids.
           find_category tree cid = Some (DirItem i name ''Category'' (Some cid) kids) \<and>
           DirItem i name ''Category'' (Some cid) kids \<in> set tree \<and>
           get_storage (Some cid) (update_storage_data (Some entries) g) =
             JsonItem (DirItem i name ''Category'' (Some cid) kids)"
proof -
  let ?g0 = "g\<lparr>id_counter := 1, category_id_counter := 1\<rparr>"
  from assms(1) have run: "scan_loop entries True None [] ?g0 = (Inr tree, g1)"
    by simp
  from scan_loop_numbered[OF run] have n: "numbered_from None 1 tree"
    by simp
  from numbered_present[OF n assms(2) assms(3)]
  obtain name where "(Some cid, name) \<in> set (top_categories tree)"
    by blast
  from numbered_find[OF n this]
  obtain i kids where f: "find_category tree cid = Some (DirItem i name ''Category'' (Some cid) kids)"
    and m: "DirItem i name ''Category'' (Some cid) kids \<in> set tree"
    by blast
  have st: "storage_data (update_storage_data (Some entries) g) = tree"
    using assms(1) by (simp add: update_storage_data_def)
  have "get_storage (Some cid) (update_storage_data (Some entries) g) =
          JsonItem (DirItem i name ''Category'' (Some cid) kids)"
    by (simp add: get_storage_def st f)
  with f m show ?thesis by blast
qed

theorem category_lookup_returns_category_witness:
  "scan_directory (Some sample_root) True None []
     (initial_globals\<lparr>id_counter := 1, category_id_counter := 1\<rparr>) =
     (Inr sample_tree, initial_globals\<lparr>id_counter := 8, category_id_counter := 3\<rparr>) \<and>
   preorder sample_tree ! 2 \<in> set (preorder sample_tree) \<and>
   item_name (preorder sample_tree ! 2) = ''Drafts'' \<and>
   idCategory (preorder sample_tree ! 2) = Some (Some 1) \<and>
   (\<exists>i name kids.
      find_category sample_tree 1 = Some (DirItem i name ''Category'' (Some 1) kids) \<and>
      DirItem i name ''Category'' (Some 1) kids \<in> set sample_tree \<and>
      get_storage (Some 1) (update_storage_data (Some sample_root) initial_globals) =
        JsonItem (DirItem i name ''Category'' (Some 1) kids)) \<and>
   find_category sample_tree 1 = Some (sample_tree ! 0) \<and>
   item_name (sample_tree ! 0) = ''Docs''"
proof -
  have a: "preorder sample_tree ! 2 \<in> set (preorder sample_tree)"
    by (simp add: sample_tree_def)
  have b: "idCategory (preorder sample_tree ! 2) = Some (Some 1)"
    by (simp add: sample_tree_def)
  have c: "item_name (preorder sample_tree ! 2) = ''Drafts''" "item_name (sample_tree ! 0) = ''Docs''"
    by (simp_all add: sample_tree_def)
  from category_lookup_returns_category[OF sample_scan[of initial_globals] a b]
    sample_scan[of initial_globals] a b c sample_find(1)
  show ?thesis by simp
qed

subsection \<open>The category list\<close>

lemma enumerate_entries:
  "map entry_idCategory (map (\<lambda>(idx, name). CategoryEntry (int idx + 1) name) (enumerate n names)) =
     [int n + 1..int n + int (length names)] \<and>
   map entry_textCategory (map (\<lambda>(idx, name). CategoryEntry (int idx + 1) name) (enumerate n names)) =
     names"
proof (induction names arbitrary: n)
  case Nil
  show ?case by simp
next
  case (Cons x xs)
  have "[int n + 1..int n + int (length (x # xs))] =
        (int n + 1) # [int n + 1 + 1..int n + int (length (x # xs))]"
    by (intro upto_rec1) simp
  with Cons[of "Suc n"] show ?case by (simp add: add.commute add.left_commute)
qed

lemma update_categories_list:
  "map entry_idCategory (categories (update_categories (Some listing) g)) =
     [1..int (length (filter is_dir listing))] \<and>
   map entry_textCategory (categories (update_categories (Some listing) g)) =
     map entry_name (filter is_dir listing)"
  using enumerate_entries[of 0 "map entry_name (filter is_dir listing)"]
  by (simp add: update_categories_def Let_def)

lemma sample_categories:
  "categories (update_categories (Some sample_root) g) =
     [CategoryEntry 1 ''Docs'', CategoryEntry 2 ''Img'']"
  "categories (update_categories (Some reordered_root) g) =
     [CategoryEntry 1 ''Docs'', CategoryEntry 2 ''Img'']"
  by (simp_all add: update_categories_def sample_root_def reordered_root_def enumerate_eq_zip
        upt_rec)

text \<open>
  C8, as the code has it. \<^verbatim>\<open>update_categories\<close> publishes one entry per directory
  directly under the root, in listing order, other entries left out; the entry's
  \<^verbatim>\<open>idCategory\<close> is its 1-based position among those directories and its
  \<^verbatim>\<open>textCategory\<close> is the directory's name. These two are the keys of every entry, and
  \<^verbatim>\<open>GET /categories\<close> returns the list as it is.
\<close>

theorem category_list_of_subdirectories:
  "map entry_textCategory (categories (update_categories (Some listing) g)) =
     map entry_name (filter is_dir listing) \<and>
   map entry_idCategory (categories (update_categories (Some listing) g)) =
     [1..int (length (filter is_dir listing))] \<and>
   list_all (\<lambda>e. entry_keys e = [''idCategory'', ''textCategory''])
     (categories (update_categories (Some listing) g)) \<and>
   get_categories (update_categories (Some listing) g) =
     JsonCategories (categories (update_categories (Some listing) g))"
proof -
  have k: "entry_keys e = [''idCategory'', ''textCategory'']" for e
    by (cases e) simp
  show ?thesis
    using update_categories_list[of listing g]
    by (simp add: k list_all_iff get_categories_def)
qed

text \<open>C8, as stated, names the second field \<^verbatim>\<open>name\<close>: no entry has that key.\<close>

theorem category_entries_have_no_name_field:
  "\<not> list_all (\<lambda>e. entry_keys e = [''idCategory'', ''name''])
       (categories (update_categories (Some sample_root) initial_globals))"
  by (simp add: sample_categories)


subsection \<open>The two numberings of the categories\<close>

lemma update_storage_data_categories:
  "categories (update_storage_data root g) = categories g"
proof -
  let ?g0 = "g\<lparr>id_counter := 1, category_id_counter := 1\<rparr>"
  obtain res g1 where s: "scan_directory root True None [] ?g0 = (res, g1)"
    by force
  from scan_directory_published[of root True None "[]" ?g0] s
  have "categories g1 = categories g"
    by simp
  then show ?thesis
    by (cases res) (simp_all add: update_storage_data_def s)
qed

lemma pairs_eq:
  "map fst xs = map fst ys \<Longrightarrow> map snd xs = map snd ys \<Longrightarrow> xs = ys"
  by (metis zip_map_fst_snd)

text \<open>
  C10. Let \<^verbatim>\<open>update_categories\<close> list the root and \<^verbatim>\<open>update_storage_data\<close> then scan it,
  both seeing the same directory names in the same order at the top level (the other
  entries may differ). Then the category list and the top-level Categories of the tree
  agree position by position on category id and name, and \<^verbatim>\<open>GET /storage?idCategory\<close>
  answers every id of the list with the Category item of that id and name.
\<close>

theorem category_numberings_coincide:
  assumes "map entry_name (filter is_dir listing1) = map entry_name (filter is_dir listing2)"
    and "scan_directory (Some listing2) True None []
           ((update_categories (Some listing1) g)\<lparr>id_counter := 1, category_id_counter := 1\<rparr>) =
         (Inr tree, g1)"
  shows "storage_data (update_storage_data (Some listing2) (update_categories (Some listing1) g)) = tree \<and>
         categories (update_storage_data (Some listing2) (update_categories (Some listing1) g)) =
           categories (update_categories (Some listing1) g) \<and>
         map (\<lambda>e. (Some (entry_idCategory e), entry_textCategory e))
           (categories (update_categories (Some listing1) g)) = top_categories tree \<and>
         list_all
           (\<lambda>e. \<exists>i kids.
              get_storage (Some (entry_idCategory e))
                (update_storage_data (Some listing2) (update_categories (Some listing1) g)) =
              JsonItem (DirItem i (entry_textCategory e) ''Category'' (Some (entry_idCategory e)) kids))
           (categories (update_categories (Some listing1) g))"
proof -
  let ?s1 = "update_categories (Some listing1) g"
  let ?s2 = "update_storage_data (Some listing2) ?s1"
  let ?cats = "categories ?s1"
  let ?g0 = "?s1\<lparr>id_counter := 1, category_id_counter := 1\<rparr>"
  from assms(2) have run: "scan_loop listing2 True None [] ?g0 = (Inr tree, g1)"
    by simp
  from scan_loop_numbered[OF run]
  have n: "numbered_from None 1 tree"
    and le: "1 \<le> category_id_counter g1"
    and t1: "map fst (top_categories tree) = map Some [1..category_id_counter g1 - 1]"
    and t2: "map snd (top_categories tree) = map entry_name (filter is_dir listing2)"
    by simp_all
  from update_categories_list[of listing1 g]
  have c1: "map entry_idCategory ?cats = [1..int (length (filter is_dir listing1))]"
    and c2: "map entry_textCategory ?cats = map entry_name (filter is_dir listing1)"
    by simp_all
  have "length (filter is_dir listing1) = length (map entry_name (filter is_dir listing1))"
    by simp
  also have "\<dots> = length (map snd (top_categories tree))"
    by (simp only: assms(1) t2)
  also have "\<dots> = length (map fst (top_categories tree))"
    by simp
  also have "\<dots> = nat (category_id_counter g1 - 1)"
    by (simp only: t1 length_map length_upto)
  finally have len: "int (length (filter is_dir listing1)) = category_id_counter g1 - 1"
    using le by simp
  have st: "storage_data ?s2 = tree"
    using assms(2) by (simp add: update_storage_data_def)
  have ct: "categories ?s2 = ?cats"
    by (rule update_storage_data_categories)
  have f1: "map fst (map (\<lambda>e. (Some (entry_idCategory e), entry_textCategory e)) ?cats) =
            map fst (top_categories tree)"
  proof -
    have "map fst (map (\<lambda>e. (Some (entry_idCategory e), entry_textCategory e)) ?cats) =
          map Some (map entry_idCategory ?cats)"
      by (simp add: comp_def)
    also have "\<dots> = map Some [1..category_id_counter g1 - 1]"
      by (simp only: c1 len)
    finally show ?thesis
      by (simp only: t1)
  qed
  have f2: "map snd (map (\<lambda>e. (Some (entry_idCategory e), entry_textCategory e)) ?cats) =
            map snd (top_categories tree)"
  proof -
    have "map snd (map (\<lambda>e. (Some (entry_idCategory e), entry_textCategory e)) ?cats) =
          map entry_textCategory ?cats"
      by (simp add: comp_def)
    then show ?thesis
      by (simp only: c2 t2 assms(1))
  qed
  have eq: "map (\<lambda>e. (Some (entry_idCategory e), entry_textCategory e)) ?cats = top_categories tree"
    by (rule pairs_eq[OF f1 f2])
  have found: "\<exists>i kids. get_storage (Some (entry_idCategory e)) ?s2 =
              JsonItem (DirItem i (entry_textCategory e) ''Category'' (Some (entry_idCategory e)) kids)"
    if "e \<in> set ?cats" for e
  proof -
    from that have "(Some (entry_idCategory e), entry_textCategory e) \<in>
                    set (map (\<lambda>e. (Some (entry_idCategory e), entry_textCategory e)) ?cats)"
      by auto
    then have "(Some (entry_idCategory e), entry_textCategory e) \<in> set (top_categories tree)"
      by (simp only: eq)
    from numbered_find[OF n this] show ?thesis
      by (auto simp: get_storage_def st)
  qed
  then have all: "list_all
           (\<lambda>e. \<exists>i kids. get_storage (Some (entry_idCategory e)) ?s2 =
              JsonItem (DirItem i (entry_textCategory e) ''Category'' (Some (entry_idCategory e)) kids))
           ?cats"
    by (simp add: list_all_iff)
  show ?thesis
    by (intro conjI) (rule st, rule ct, rule eq, rule all)
qed


theorem category_numberings_coincide_witness:
  "map entry_name (filter is_dir reordered_root) = map entry_name (filter is_dir sample_root) \<and>
   scan_directory (Some sample_root) True None []
     ((update_categories (Some reordered_root) initial_globals)
        \<lparr>id_counter := 1, category_id_counter := 1\<rparr>) =
     (Inr sample_tree,
      (update_categories (Some reordered_root) initial_globals)
        \<lparr>id_counter := 8, category_id_counter := 3\<rparr>) \<and>
   categories (update_categories (Some reordered_root) initial_globals) =
     [CategoryEntry 1 ''Docs'', CategoryEntry 2 ''Img''] \<and>
   top_categories sample_tree = [(Some 1, ''Docs''), (Some 2, ''Img'')] \<and>
   map (\<lambda>e. (Some (entry_idCategory e), entry_textCategory e))
     (categories (update_categories (Some reordered_root) initial_globals)) =
     top_categories sample_tree \<and>
   list_all
     (\<lambda>e. \<exists>i kids.
        get_storage (Some (entry_idCategory e))
          (update_storage_data (Some sample_root)
             (update_categories (Some reordered_root) initial_globals)) =
        JsonItem (DirItem i (entry_textCategory e) ''Category'' (Some (entry_idCategory e)) kids))
     (categories (update_categories (Some reordered_root) initial_globals))"
proof -
  let ?s1 = "update_categories (Some reordered_root) initial_globals"
  have h1: "map entry_name (filter is_dir reordered_root) =
            map entry_name (filter is_dir sample_root)"
    by (simp add: reordered_root_def sample_root_def)
  note h2 = sample_scan[of ?s1]
  have t: "top_categories sample_tree = [(Some 1, ''Docs''), (Some 2, ''Img'')]"
    by (simp add: sample_tree_def)
  note w = category_numberings_coincide[OF h1 h2]
  show ?thesis
    by (intro conjI)
       (rule h1, rule h2, rule sample_categories(2), rule t,
        rule w[THEN conjunct2, THEN conjunct2, THEN conjunct1],
        rule w[THEN conjunct2, THEN conjunct2, THEN conjunct2])
qed

subsection \<open>Download URLs\<close>

lemma map_filter_app: "List.map_filter f (xs @ ys) = List.map_filter f xs @ List.map_filter f ys"
  by (simp add: List.map_filter_def)

lemma file_urls_simps [simp]:
  "file_urls [] = []"
  "file_urls (DirItem i n t c kids # data) = file_urls kids @ file_urls data"
  "file_urls (FileItem i n t d ft fs url c # data) = url # file_urls data"
  by (simp_all add: file_urls_def map_filter_app)

lemma slash_join_snoc:
  "ps \<noteq> [] \<Longrightarrow> slash_join (ps @ [name]) = slash_join ps @ ''/'' @ name"
  by (induction ps rule: slash_join.induct) simp_all

lemma slash_join_last:
  "ps \<noteq> [] \<Longrightarrow> list_all valid_name ps \<Longrightarrow>
   slash_join ps \<noteq> [] \<and> last (slash_join ps) \<noteq> CHR ''/''"
proof (induction ps rule: slash_join.induct)
  case 1
  then show ?case by simp
next
  case (2 x)
  then have "x \<noteq> []" "CHR ''/'' \<notin> set x" by (simp_all add: valid_name_def)
  then show ?case by (metis last_in_set slash_join.simps(2))
next
  case (3 x y ys)
  then show ?case by simp
qed

lemma path_join_slash:
  assumes "list_all valid_name ps" "valid_name name"
  shows "path_join (slash_join ps) name = slash_join (ps @ [name])"
proof (cases "ps = []")
  case True
  from assms(2) have "name \<noteq> []" "hd name \<noteq> CHR ''/''"
    by (auto simp: valid_name_def dest: hd_in_set)
  with True show ?thesis by (simp add: path_join_def)
next
  case False
  from assms(2) have n: "name \<noteq> []" "hd name \<noteq> CHR ''/''"
    by (auto simp: valid_name_def dest: hd_in_set)
  from slash_join_last[OF False assms(1)] n slash_join_snoc[OF False, of name]
  show ?thesis by (simp add: path_join_def)
qed

lemma scan_loop_urls:
  assumes "scan_loop es isr pc rel g = (Inr r, g')"
  shows "\<forall>ps. rel = slash_join ps \<longrightarrow> list_all valid_name ps \<longrightarrow> valid_names es \<longrightarrow>
           file_urls r =
             map (\<lambda>p. BASE_URL @ ''/files/storage/'' @ quote (slash_join p)) (file_paths ps es)"
  using assms
proof (induction rule: scan_ok_induct)
  case (Nil isr pc rel g)
  show ?case by simp
next
  case (Dir name kidsl entries isr pc rel g kids g3 result g')
  show ?case
  proof (intro allI impI)
    fix ps
    assume rel: "rel = slash_join ps" and ps: "list_all valid_name ps"
      and v: "valid_names (Dir name (Some kidsl) # entries)"
    from v have vn: "valid_name name" and vk: "valid_names kidsl" and ve: "valid_names entries"
      by simp_all
    have j: "path_join rel name = slash_join (ps @ [name])"
      unfolding rel by (rule path_join_slash[OF ps vn])
    from Dir.IH(1) j ps vn vk
    have k: "file_urls kids =
             map (\<lambda>p. BASE_URL @ ''/files/storage/'' @ quote (slash_join p))
               (file_paths (ps @ [name]) kidsl)"
      by simp
    from Dir.IH(2) rel ps ve
    have e: "file_urls result =
             map (\<lambda>p. BASE_URL @ ''/files/storage/'' @ quote (slash_join p)) (file_paths ps entries)"
      by simp
    show "file_urls (DirItem (id_counter g) name (if isr then ''Category'' else ''folder'')
                       (dir_category isr pc g) kids # result) =
          map (\<lambda>p. BASE_URL @ ''/files/storage/'' @ quote (slash_join p))
            (file_paths ps (Dir name (Some kidsl) # entries))"
      by (simp add: k e)
  qed
next
  case (File name nbytes creation_date entries isr pc rel g result g')
  show ?case
  proof (intro allI impI)
    fix ps
    assume rel: "rel = slash_join ps" and ps: "list_all valid_name ps"
      and v: "valid_names (File name (Some (nbytes, creation_date)) # entries)"
    from v have vn: "valid_name name" and ve: "valid_names entries"
      by simp_all
    have j: "path_join rel name = slash_join (ps @ [name])"
      unfolding rel by (rule path_join_slash[OF ps vn])
    from File.IH rel ps ve
    have e: "file_urls result =
             map (\<lambda>p. BASE_URL @ ''/files/storage/'' @ quote (slash_join p)) (file_paths ps entries)"
      by simp
    show "file_urls (FileItem (id_counter g) (fst (splitext name)) ''file'' creation_date
             (if snd (splitext name) \<noteq> [] then tl (snd (splitext name)) else ''unknown'')
             (format_file_size nbytes)
             (BASE_URL @ ''/files/storage/'' @ quote (path_join rel name)) pc # result) =
          map (\<lambda>p. BASE_URL @ ''/files/storage/'' @ quote (slash_join p))
            (file_paths ps (File name (Some (nbytes, creation_date)) # entries))"
      by (simp add: j e)
  qed
next
  case (Other name entries isr pc rel g result g')
  then show ?case by simp
qed


lemma scan_loop_file_items:
  assumes "scan_loop es isr pc rel g = (Inr r, g')"
  shows "list_all (\<lambda>item. ''filepath'' \<in> set (item_keys item) \<and> filepath item \<noteq> None)
           (filter (\<lambda>item. item_type item = ''file'') (preorder r))"
  using assms
  by (induction rule: scan_ok_induct) simp_all

text \<open>
  C7, as the code has it. In a tree published by a scan of entries with POSIX names, every
  file item carries the key \<^verbatim>\<open>filepath\<close>, and its value is the base URL, then
  \<^verbatim>\<open>/files/storage/\<close>, then the quoted path of the file from the scan root, its names
  joined by forward slashes.
\<close>

theorem file_items_carry_download_url:
  assumes "scan_directory (Some entries) True None []
             (g\<lparr>id_counter := 1, category_id_counter := 1\<rparr>) = (Inr tree, g1)"
    and "valid_names entries"
  shows "storage_data (update_storage_data (Some entries) g) = tree \<and>
         list_all (\<lambda>item. ''filepath'' \<in> set (item_keys item) \<and> filepath item \<noteq> None)
           (filter (\<lambda>item. item_type item = ''file'') (preorder tree)) \<and>
         List.map_filter filepath (preorder tree) =
           map (\<lambda>p. BASE_URL @ ''/files/storage/'' @ quote (slash_join p)) (file_paths [] entries)"
proof -
  let ?g0 = "g\<lparr>id_counter := 1, category_id_counter := 1\<rparr>"
  from assms(1) have run: "scan_loop entries True None [] ?g0 = (Inr tree, g1)"
    by simp
  have st: "storage_data (update_storage_data (Some entries) g) = tree"
    using assms(1) by (simp add: update_storage_data_def)
  from scan_loop_urls[OF run] assms(2)
  have "file_urls tree =
          map (\<lambda>p. BASE_URL @ ''/files/storage/'' @ quote (slash_join p)) (file_paths [] entries)"
    by simp
  then have u: "List.map_filter filepath (preorder tree) =
          map (\<lambda>p. BASE_URL @ ''/files/storage/'' @ quote (slash_join p)) (file_paths [] entries)"
    by (simp only: file_urls_def)
  show ?thesis
    by (intro conjI) (rule st, rule scan_loop_file_items[OF run], rule u)
qed

theorem file_items_carry_download_url_witness:
  "scan_directory (Some sample_root) True None []
     (initial_globals\<lparr>id_counter := 1, category_id_counter := 1\<rparr>) =
     (Inr sample_tree, initial_globals\<lparr>id_counter := 8, category_id_counter := 3\<rparr>) \<and>
   valid_names sample_root \<and>
   file_paths [] sample_root =
     [[''Docs'', ''report.pdf''], [''Docs'', ''Drafts'', ''v1.txt''], [''readme''],
      [''Img'', ''a b.png'']] \<and>
   List.map_filter filepath (preorder sample_tree) =
     map (\<lambda>p. BASE_URL @ ''/files/storage/'' @ quote (slash_join p)) (file_paths [] sample_root) \<and>
   List.map_filter filepath (preorder sample_tree) =
     [''http://127.0.0.1:5000/files/storage/Docs/report.pdf'',
      ''http://127.0.0.1:5000/files/storage/Docs/Drafts/v1.txt'',
      ''http://127.0.0.1:5000/files/storage/readme'',
      ''http://127.0.0.1:5000/files/storage/Img/a%20b.png'']"
proof -
  have v: "valid_names sample_root"
    by (simp add: sample_root_def valid_name_def)
  have p: "file_paths [] sample_root =
     [[''Docs'', ''report.pdf''], [''Docs'', ''Drafts'', ''v1.txt''], [''readme''],
      [''Img'', ''a b.png'']]"
    by (simp add: sample_root_def)
  have l: "List.map_filter filepath (preorder sample_tree) =
     [''http://127.0.0.1:5000/files/storage/Docs/report.pdf'',
      ''http://127.0.0.1:5000/files/storage/Docs/Drafts/v1.txt'',
      ''http://127.0.0.1:5000/files/storage/readme'',
      ''http://127.0.0.1:5000/files/storage/Img/a%20b.png'']"
    by (simp add: sample_tree_def)
  note w = file_items_carry_download_url[OF sample_scan[of initial_globals] v]
  show ?thesis
    by (intro conjI)
       (rule sample_scan, rule v, rule p, rule w[THEN conjunct2, THEN conjunct2], rule l)
qed

text \<open>C7, as stated, names the field \<^verbatim>\<open>fileUrl\<close>: no file item has that key.\<close>

theorem file_items_have_no_fileUrl_field:
  "\<not> list_all (\<lambda>item. ''fileUrl'' \<in> set (item_keys item))
       (filter (\<lambda>item. item_type item = ''file'')
          (preorder (storage_data (update_storage_data (Some sample_root) initial_globals))))"
proof -
  have "storage_data (update_storage_data (Some sample_root) initial_globals) = sample_tree"
    using sample_scan[of initial_globals] by (simp add: update_storage_data_def)
  moreover have "\<not> list_all (\<lambda>item. ''fileUrl'' \<in> set (item_keys item))
       (filter (\<lambda>item. item_type item = ''file'') (preorder sample_tree))"
    by (simp add: sample_tree_def)
  ultimately show ?thesis by simp
qed

subsection \<open>The size string of a scanned file\<close>

lemma read_decimal_snoc: "read_decimal (s @ [c]) = 10 * read_decimal s + (of_char c - 48)"
  by (simp add: read_decimal_def)

lemma digit_char_value: "d < 10 \<Longrightarrow> (of_char (digit_char d) :: nat) = 48 + d"
  by (simp add: digit_char_def)

lemma read_decimal_str_nat: "read_decimal (str_nat n) = n"
proof (induction n rule: str_nat.induct)
  case (1 n)
  show ?case
  proof (cases "n < 10")
    case True
    then show ?thesis
      using read_decimal_snoc[of "[]" "digit_char n"]
      by (simp add: digit_char_value read_decimal_def)
  next
    case False
    have "str_nat n = str_nat (n div 10) @ [digit_char (n mod 10)]"
      using False by (subst str_nat.simps) simp
    with 1[OF False] show ?thesis
      by (simp add: read_decimal_snoc digit_char_value del: str_nat.simps)
  qed
qed

lemma round_half_even_nearest:
  assumes "0 < b"
  shows "2 * a \<le> (2 * round_half_even a b + 1) * b \<and> 2 * round_half_even a b * b \<le> 2 * a + b"
proof -
  define q where "q = a div b"
  define r where "r = a mod b"
  have e: "a = q * b + r" by (simp add: q_def r_def)
  have rb: "r < b" using assms by (simp add: r_def)
  show ?thesis
  proof (cases "2 * r > b \<or> (2 * r = b \<and> odd q)")
    case True
    then have "round_half_even a b = q + 1"
      by (simp add: round_half_even_def q_def r_def Let_def)
    moreover have "b \<le> 2 * r" using True by auto
    ultimately show ?thesis using e rb by (simp add: algebra_simps)
  next
    case False
    then have "round_half_even a b = q"
      by (simp add: round_half_even_def q_def r_def Let_def)
    moreover have "2 * r \<le> b" using False by auto
    ultimately show ?thesis using e by (simp add: algebra_simps)
  qed
qed

lemma map_filter_fileSize_simps [simp]:
  "List.map_filter fileSize (preorder (DirItem i n t c kids # data)) =
     List.map_filter fileSize (preorder kids) @ List.map_filter fileSize (preorder data)"
  "List.map_filter fileSize (preorder (FileItem i n t d ft fs url c # data)) =
     fs # List.map_filter fileSize (preorder data)"
  by (simp_all add: map_filter_app)

lemma scan_loop_sizes:
  assumes "scan_loop es isr pc rel g = (Inr r, g')"
  shows "List.map_filter fileSize (preorder r) = map format_file_size (file_sizes es)"
  using assms
  by (induction rule: scan_ok_induct) (simp_all del: preorder.simps(2,3))


lemma float_shift_le: "n < 2 ^ 53 * 2 ^ k \<Longrightarrow> float_shift n \<le> k"
proof (induction k arbitrary: n)
  case 0
  then show ?case by simp
next
  case (Suc k)
  show ?case
  proof (cases "n < 2 ^ 53")
    case True
    then show ?thesis by simp
  next
    case False
    from Suc.prems have "n < 2 * (2 ^ 53 * 2 ^ k)" by simp
    then have "n div 2 < 2 ^ 53 * 2 ^ k" by (simp add: less_mult_imp_div_less mult.commute)
    from Suc.IH[OF this] False show ?thesis
      by (subst float_shift.simps) simp
  qed
qed

lemma nearest_double_error:
  assumes "n < 2 ^ 63"
  shows "2 * nearest_double n \<le> 2 * n + 1024 \<and> 2 * n \<le> 2 * nearest_double n + 1024"
proof -
  define sh where "sh = float_shift n"
  define q where "q = round_half_even n (2 ^ sh)"
  have "sh \<le> 10"
    unfolding sh_def using assms by (intro float_shift_le) simp
  then have "(2::nat) ^ sh \<le> 2 ^ 10"
    by (intro power_increasing) simp_all
  then have p: "(2::nat) ^ sh \<le> 1024" by simp
  have nd: "nearest_double n = q * 2 ^ sh"
    by (simp add: nearest_double_def sh_def q_def Let_def del: float_shift.simps)
  from round_half_even_nearest[of "2 ^ sh" n]
  have "2 * n \<le> (2 * q + 1) * 2 ^ sh" "2 * q * 2 ^ sh \<le> 2 * n + 2 ^ sh"
    by (simp_all add: q_def)
  then have "2 * n \<le> 2 * (q * 2 ^ sh) + 2 ^ sh" "2 * (q * 2 ^ sh) \<le> 2 * n + 2 ^ sh"
    by (simp_all add: algebra_simps)
  with p show ?thesis unfolding nd by linarith
qed

lemma format_file_size_shape:
  "format_file_size S =
     (let q = round_half_even (100 * nearest_double S) (if S < 1048576 then 1024 else 1048576) in
      str_nat (q div 100) @ ''.'' @ [digit_char (q mod 100 div 10), digit_char (q mod 10)] @
      (if S < 1048576 then '' KB'' else '' MB''))"
  by (simp add: format_file_size_def format_2f_def Let_def del: str_nat.simps)

lemma hundredths_KB:
  assumes "S < 1048576"
  defines "q \<equiv> round_half_even (100 * nearest_double S) 1024"
  shows "2 * (100 * S) \<le> (2 * q + 1) * 1024 \<and> 2 * q * 1024 \<le> 2 * (100 * S) + 1024"
proof -
  from assms(1) have "S < 2 ^ 53" by simp
  then have "nearest_double S = S" by (rule nearest_double_small)
  then show ?thesis
    unfolding q_def using round_half_even_nearest[of 1024 "100 * S"] by simp
qed

lemma hundredths_MB_exact:
  assumes "S < 2 ^ 53"
  defines "q \<equiv> round_half_even (100 * nearest_double S) 1048576"
  shows "2 * (100 * S) \<le> (2 * q + 1) * 1048576 \<and> 2 * q * 1048576 \<le> 2 * (100 * S) + 1048576"
proof -
  from assms(1) have "nearest_double S = S" by (rule nearest_double_small)
  then show ?thesis
    unfolding q_def using round_half_even_nearest[of 1048576 "100 * S"] by simp
qed

lemma hundredths_MB_near:
  assumes "S < 2 ^ 63"
  defines "q \<equiv> round_half_even (100 * nearest_double S) 1048576"
  shows "100 * S < (q + 1) * 1048576 \<and> q * 1048576 < 100 * S + 1048576"
proof -
  from nearest_double_error[OF assms(1)]
  have e: "2 * nearest_double S \<le> 2 * S + 1024" "2 * S \<le> 2 * nearest_double S + 1024"
    by simp_all
  from round_half_even_nearest[of 1048576 "100 * nearest_double S"]
  have r: "2 * (100 * nearest_double S) \<le> (2 * q + 1) * 1048576"
    "2 * q * 1048576 \<le> 2 * (100 * nearest_double S) + 1048576"
    by (simp_all add: q_def)
  from e r show ?thesis by simp
qed


text \<open>
  C6. The \<^verbatim>\<open>fileSize\<close> of every scanned file is the size string of its byte count \<open>S\<close>.
  The string is a decimal number \<open>q / 100\<close> written with exactly two digits after the
  point, a space, and the label \<^verbatim>\<open>KB\<close> when \<open>S < 1048576\<close>, \<^verbatim>\<open>MB\<close> otherwise. For
  \<open>S < 2 ^ 53\<close>, where the double of the quotient is exact, \<open>q / 100\<close> is \<open>S / 1024\<close>
  (\<open>S / 1048576\<close> for \<^verbatim>\<open>MB\<close>) rounded to the nearest hundredth; for every \<open>S < 2 ^ 63\<close> it
  is that quotient rounded to a hundredth next to it. 1,048,575 bytes give
  \<^verbatim>\<open>1024.00 KB\<close> and 1,048,576 bytes give \<^verbatim>\<open>1.00 MB\<close>.
\<close>

theorem file_size_string:
  assumes "scan_directory (Some entries) True None []
             (g\<lparr>id_counter := 1, category_id_counter := 1\<rparr>) = (Inr tree, g1)"
  shows "List.map_filter fileSize (preorder tree) = map format_file_size (file_sizes entries) \<and>
         (\<exists>q. format_file_size S =
                str_nat (q div 100) @ ''.'' @ [digit_char (q mod 100 div 10), digit_char (q mod 10)] @
                (if S < 1048576 then '' KB'' else '' MB'') \<and>
              read_decimal (str_nat (q div 100)) = q div 100 \<and>
              (S < 2 ^ 53 \<longrightarrow>
                 2 * (100 * S) \<le> (2 * q + 1) * (if S < 1048576 then 1024 else 1048576) \<and>
                 2 * q * (if S < 1048576 then 1024 else 1048576) \<le>
                   2 * (100 * S) + (if S < 1048576 then 1024 else 1048576)) \<and>
              (S < 2 ^ 63 \<longrightarrow>
                 100 * S < (q + 1) * (if S < 1048576 then 1024 else 1048576) \<and>
                 q * (if S < 1048576 then 1024 else 1048576) <
                   100 * S + (if S < 1048576 then 1024 else 1048576))) \<and>
         format_file_size 1048575 = ''1024.00 KB'' \<and>
         format_file_size 1048576 = ''1.00 MB''"
proof -
  let ?g0 = "g\<lparr>id_counter := 1, category_id_counter := 1\<rparr>"
  let ?unit = "if S < 1048576 then 1024 else (1048576::nat)"
  define q where "q = round_half_even (100 * nearest_double S) ?unit"
  from assms have run: "scan_loop entries True None [] ?g0 = (Inr tree, g1)"
    by simp
  have a: "List.map_filter fileSize (preorder tree) = map format_file_size (file_sizes entries)"
    by (rule scan_loop_sizes[OF run])
  have shape: "format_file_size S =
                str_nat (q div 100) @ ''.'' @ [digit_char (q mod 100 div 10), digit_char (q mod 10)] @
                (if S < 1048576 then '' KB'' else '' MB'')"
    unfolding q_def using format_file_size_shape[of S] by (simp only: Let_def)
  have exact: "2 * (100 * S) \<le> (2 * q + 1) * ?unit \<and> 2 * q * ?unit \<le> 2 * (100 * S) + ?unit"
    if "S < 2 ^ 53"
  proof (cases "S < 1048576")
    case True
    with hundredths_KB[OF True] show ?thesis by (simp add: q_def)
  next
    case False
    with hundredths_MB_exact[OF that] show ?thesis by (simp add: q_def)
  qed
  have near: "100 * S < (q + 1) * ?unit \<and> q * ?unit < 100 * S + ?unit"
    if "S < 2 ^ 63"
  proof (cases "S < 1048576")
    case True
    with hundredths_KB[OF True] show ?thesis by (simp add: q_def)
  next
    case False
    with hundredths_MB_near[OF that] show ?thesis by (simp add: q_def)
  qed
  have b: "\<exists>q. format_file_size S =
                str_nat (q div 100) @ ''.'' @ [digit_char (q mod 100 div 10), digit_char (q mod 10)] @
                (if S < 1048576 then '' KB'' else '' MB'') \<and>
              read_decimal (str_nat (q div 100)) = q div 100 \<and>
              (S < 2 ^ 53 \<longrightarrow>
                 2 * (100 * S) \<le> (2 * q + 1) * ?unit \<and> 2 * q * ?unit \<le> 2 * (100 * S) + ?unit) \<and>
              (S < 2 ^ 63 \<longrightarrow>
                 100 * S < (q + 1) * ?unit \<and> q * ?unit < 100 * S + ?unit)"
    using shape read_decimal_str_nat[of "q div 100"] exact near by blast
  show ?thesis
    by (intro conjI) (rule a, rule b, rule sample_sizes(3), rule sample_sizes(4))
qed

theorem file_size_string_witness:
  "scan_directory (Some sample_root) True None []
     (initial_globals\<lparr>id_counter := 1, category_id_counter := 1\<rparr>) =
     (Inr sample_tree, initial_globals\<lparr>id_counter := 8, category_id_counter := 3\<rparr>) \<and>
   file_sizes sample_root = [2000000, 10, 1048575, 1048576] \<and>
   List.map_filter fileSize (preorder sample_tree) =
     [''1.91 MB'', ''0.01 KB'', ''1024.00 KB'', ''1.00 MB''] \<and>
   (2000000::nat) < 2 ^ 53 \<and>
   (\<exists>q. format_file_size 2000000 =
          str_nat (q div 100) @ ''.'' @ [digit_char (q mod 100 div 10), digit_char (q mod 10)] @
          '' MB'' \<and>
        2 * (100 * 2000000) \<le> (2 * q + 1) * 1048576 \<and>
        2 * q * 1048576 \<le> 2 * (100 * 2000000) + 1048576)"
proof -
  have f: "file_sizes sample_root = [2000000, 10, 1048575, 1048576]"
    by (simp add: sample_root_def)
  note w = file_size_string[OF sample_scan[of initial_globals], of 2000000]
  from w have m: "List.map_filter fileSize (preorder sample_tree) =
     [''1.91 MB'', ''0.01 KB'', ''1024.00 KB'', ''1.00 MB'']"
    by (simp only: f list.map sample_sizes)
  have s: "(2000000::nat) < 2 ^ 53" by simp
  from w s have e: "\<exists>q. format_file_size 2000000 =
          str_nat (q div 100) @ ''.'' @ [digit_char (q mod 100 div 10), digit_char (q mod 10)] @
          '' MB'' \<and>
        2 * (100 * 2000000) \<le> (2 * q + 1) * 1048576 \<and>
        2 * q * 1048576 \<le> 2 * (100 * 2000000) + 1048576"
    by (simp del: str_nat.simps) blast
  show ?thesis
    by (intro conjI) (rule sample_scan, rule f, rule m, rule s, rule e)
qed

subsection \<open>Two globals, two refresh operations\<close>

lemma update_categories_storage_data:
  "storage_data (update_categories root g) = storage_data g"
  by (cases root) (simp_all add: update_categories_def Let_def)

text \<open>
  C5, as the code has it. Each refresh operation writes its own global only, and all or
  nothing: after \<^verbatim>\<open>update_storage_data\<close> the category list and the answer of
  \<^verbatim>\<open>GET /categories\<close> are what they were, and the tree is the tree before or the whole
  tree the scan returned; after \<^verbatim>\<open>update_categories\<close> the tree and every answer of
  \<^verbatim>\<open>GET /storage\<close> are what they were, and the list is the list before or the whole list
  of the directories listed.
\<close>

theorem refresh_replaces_one_global:
  "categories (update_storage_data root g) = categories g \<and>
   get_categories (update_storage_data root g) = get_categories g \<and>
   (storage_data (update_storage_data root g) = storage_data g \<or>
    fst (scan_directory root True None [] (g\<lparr>id_counter := 1, category_id_counter := 1\<rparr>)) =
      Inr (storage_data (update_storage_data root g))) \<and>
   storage_data (update_categories root g) = storage_data g \<and>
   get_storage q (update_categories root g) = get_storage q g \<and>
   (categories (update_categories root g) = categories g \<or>
    (\<exists>listing. root = Some listing \<and>
       map entry_idCategory (categories (update_categories root g)) =
         [1..int (length (filter is_dir listing))] \<and>
       map entry_textCategory (categories (update_categories root g)) =
         map entry_name (filter is_dir listing)))"
proof -
  let ?g0 = "g\<lparr>id_counter := 1, category_id_counter := 1\<rparr>"
  obtain res g1 where s: "scan_directory root True None [] ?g0 = (res, g1)"
    by force
  from scan_directory_published[of root True None "[]" ?g0] s
  have p: "storage_data g1 = storage_data g"
    by simp
  have a: "categories (update_storage_data root g) = categories g"
    by (rule update_storage_data_categories)
  have a': "get_categories (update_storage_data root g) = get_categories g"
    by (simp add: get_categories_def a)
  have b: "storage_data (update_storage_data root g) = storage_data g \<or>
    fst (scan_directory root True None [] ?g0) = Inr (storage_data (update_storage_data root g))"
    using p by (cases res) (simp_all add: update_storage_data_def s)
  have c: "storage_data (update_categories root g) = storage_data g"
    by (rule update_categories_storage_data)
  have c': "get_storage q (update_categories root g) = get_storage q g"
    by (simp add: get_storage_def c cong: option.case_cong)
  have d: "categories (update_categories root g) = categories g \<or>
    (\<exists>listing. root = Some listing \<and>
       map entry_idCategory (categories (update_categories root g)) =
         [1..int (length (filter is_dir listing))] \<and>
       map entry_textCategory (categories (update_categories root g)) =
         map entry_name (filter is_dir listing))"
  proof (cases root)
    case None
    then show ?thesis by (simp add: update_categories_def)
  next
    case (Some listing)
    with update_categories_list[of listing g] show ?thesis by simp
  qed
  show ?thesis
    by (intro conjI) (rule a, rule a', rule b, rule c, rule c', rule d)
qed

text \<open>
  C5, as stated, asks that a caller observes the old pair or the new pair. The tree and the
  list are not published together: after \<^verbatim>\<open>update_categories\<close> and before
  \<^verbatim>\<open>update_storage_data\<close> the handlers answer with the new category list and the old
  tree, and the id 2 of the new list is not found in the tree.
\<close>

theorem refresh_pair_is_not_atomic:
  "\<not> atomic_refresh (Some sample_root) stale_globals \<and>
   get_categories (update_categories (Some sample_root) stale_globals) =
     JsonCategories [CategoryEntry 1 ''Docs'', CategoryEntry 2 ''Img''] \<and>
   get_storage None (update_categories (Some sample_root) stale_globals) =
     JsonTree [DirItem 1 ''old'' ''Category'' (Some 1) []] \<and>
   get_storage (Some 2) (update_categories (Some sample_root) stale_globals) =
     JsonObject [(''error'', ''Category not found'')]"
proof -
  let ?mid = "update_categories (Some sample_root) stale_globals"
  let ?new = "update_storage_data (Some sample_root) ?mid"
  have sd: "storage_data ?mid = [DirItem 1 ''old'' ''Category'' (Some 1) []]"
    by (simp add: update_categories_storage_data stale_globals_def)
  have gc: "get_categories ?mid = JsonCategories [CategoryEntry 1 ''Docs'', CategoryEntry 2 ''Img'']"
    by (simp add: get_categories_def sample_categories)
  have gt: "get_storage None ?mid = JsonTree [DirItem 1 ''old'' ''Category'' (Some 1) []]"
    by (simp add: get_storage_def sd)
  have g2: "get_storage (Some 2) ?mid = JsonObject [(''error'', ''Category not found'')]"
    by (simp add: get_storage_def sd)
  have old: "get_categories stale_globals = JsonCategories [CategoryEntry 1 ''old'']"
    by (simp add: get_categories_def stale_globals_def)
  have "storage_data ?new = sample_tree"
    using sample_scan[of ?mid] by (simp add: update_storage_data_def)
  then have new: "get_storage None ?new = JsonTree sample_tree"
    by (simp add: get_storage_def)
  have t: "sample_tree \<noteq> [DirItem 1 ''old'' ''Category'' (Some 1) []]"
    by (simp add: sample_tree_def)
  have n1: "observed ?mid \<noteq> observed stale_globals"
    by (simp add: observed_def gc old)
  have n2: "observed ?mid \<noteq> observed ?new"
    using t by (simp add: observed_def gt new)
  have na: "\<not> atomic_refresh (Some sample_root) stale_globals"
    using n1 n2 by (simp add: atomic_refresh_def Let_def)
  show ?thesis
    by (intro conjI) (rule na, rule gc, rule gt, rule g2)
qed

end
